theory Spec2Isabelle
  imports Main "HOL-Library.Code_Target_Nat"
begin

section \<open>Python string primitives used by the calendar manager\<close>

text \<open>
  Strings are lists of characters. Python's \<^verbatim>\<open>str\<close> holds Unicode code points; the model
  covers the code points below 256, which is what \<^typ>\<open>char\<close> holds. The events file is
  modelled by the characters it holds. The platform is one whose line separator is LF
  (\<^verbatim>\<open>os.linesep\<close> on Linux), so that text mode writes \<^verbatim>\<open>\n\<close> as it is.
\<close>

abbreviation (input) LF :: char where
  "LF \<equiv> CHR 0x0A"

abbreviation (input) CR :: char where
  "CR \<equiv> CHR 0x0D"

text \<open>\<^verbatim>\<open>str.isspace\<close> on one character, for the code points below 256.\<close>

definition isspace :: "char \<Rightarrow> bool" where
  "isspace c = ((of_char c :: nat) \<in> {9, 10, 11, 12, 13, 28, 29, 30, 31, 32, 133, 160})"

definition lstrip :: "string \<Rightarrow> string" where
  "lstrip s = dropWhile isspace s"

definition rstrip :: "string \<Rightarrow> string" where
  "rstrip s = rev (dropWhile isspace (rev s))"

text \<open>\<^verbatim>\<open>s.strip()\<close>\<close>

definition strip :: "string \<Rightarrow> string" where
  "strip s = lstrip (rstrip s)"

text \<open>\<^verbatim>\<open>line.startswith(p)\<close>\<close>

definition startswith :: "string \<Rightarrow> string \<Rightarrow> bool" where
  "startswith line p = (take (length p) line = p)"

text \<open>\<^verbatim>\<open>s.find(sub)\<close>: the index of the first occurrence, \<open>None\<close> for Python's -1.\<close>

fun find :: "string \<Rightarrow> string \<Rightarrow> nat option" where
  "find [] sub = (if sub = [] then Some 0 else None)"
| "find (c # cs) sub =
     (if startswith (c # cs) sub then Some 0 else map_option Suc (find cs sub))"

text \<open>\<^verbatim>\<open>sub in s\<close>\<close>

definition str_contains :: "string \<Rightarrow> string \<Rightarrow> bool" where
  "str_contains s sub = (find s sub \<noteq> None)"

text \<open>\<^verbatim>\<open>s.split(sep, 1)\<close> for a non-empty separator: one or two pieces.\<close>

definition split1 :: "string \<Rightarrow> string \<Rightarrow> string list" where
  "split1 s sep =
     (case find s sep of
        None \<Rightarrow> [s]
      | Some i \<Rightarrow> [take i s, drop (i + length sep) s])"

text \<open>
  Reading in text mode (\<^verbatim>\<open>open(filename, 'r')\<close>, universal newlines): the line ends CR
  LF and CR are handed to the program as LF.
\<close>

fun universal_newlines :: "string \<Rightarrow> string" where
  "universal_newlines [] = []"
| "universal_newlines [c] = (if c = CR then [LF] else [c])"
| "universal_newlines (c # d # cs) =
     (if c = CR then
        (if d = LF then LF # universal_newlines cs else LF # universal_newlines (d # cs))
      else c # universal_newlines (d # cs))"

text \<open>
  A text cut after each LF: each line keeps its terminator, and a last line without
  terminator is a line too.
\<close>

fun split_lines :: "string \<Rightarrow> string list" where
  "split_lines [] = []"
| "split_lines (c # cs) =
     (if c = LF then [c] # split_lines cs
      else (case split_lines cs of [] \<Rightarrow> [[c]] | l # ls \<Rightarrow> (c # l) # ls))"

text \<open>
  The lines of the file as \<^verbatim>\<open>f.readlines()\<close> and \<^verbatim>\<open>for line in f\<close> give them, from
  the characters of the file.
\<close>

definition readlines :: "string \<Rightarrow> string list" where
  "readlines content = split_lines (universal_newlines content)"

section \<open>Exceptions\<close>

datatype exn = ValueError | OverflowError | EOFError

section \<open>Dates\<close>

text \<open>\<^verbatim>\<open>calendar.isleap\<close>, for any integer year.\<close>

definition isleap :: "int \<Rightarrow> bool" where
  "isleap year = (year mod 4 = 0 \<and> (year mod 100 \<noteq> 0 \<or> year mod 400 = 0))"

text \<open>\<^verbatim>\<open>calendar.mdays\<close>\<close>

definition mdays :: "nat list" where
  "mdays = [0, 31, 28, 31, 30, 31, 30, 31, 31, 30, 31, 30, 31]"

definition days_in_month :: "int \<Rightarrow> nat \<Rightarrow> nat" where
  "days_in_month year month = mdays ! month + (if month = 2 \<and> isleap year then 1 else 0)"

text \<open>
  The year, month and day a \<^verbatim>\<open>datetime\<close> object can hold: years 1 to 9999 and a real
  day of the month. The constructor refuses everything else, so the type has no other
  value. The time of day is left out: \<^verbatim>\<open>strftime("%Y-%m-%d")\<close> does not read it.
\<close>

definition valid_ymd :: "nat \<times> nat \<times> nat \<Rightarrow> bool" where
  "valid_ymd = (\<lambda>(y, m, d). 1 \<le> y \<and> y \<le> 9999 \<and> 1 \<le> m \<and> m \<le> 12 \<and>
                  1 \<le> d \<and> d \<le> days_in_month (int y) m)"

typedef datetime = "{p. valid_ymd p}"
  by (rule exI [of _ "(1, 1, 1)"]) (simp add: valid_ymd_def days_in_month_def mdays_def)

setup_lifting type_definition_datetime

lift_definition year_of :: "datetime \<Rightarrow> nat" is "\<lambda>(y, m, d). y" .

lift_definition month_of :: "datetime \<Rightarrow> nat" is "\<lambda>(y, m, d). m" .

lift_definition day_of :: "datetime \<Rightarrow> nat" is "\<lambda>(y, m, d). d" .

text \<open>
  \<^verbatim>\<open>datetime(y, m, d)\<close>: a ValueError outside the range. \<open>datetime_abs\<close> is the object
  for a triple in range (its other branch is never taken by \<open>mk_datetime\<close>).
\<close>

lift_definition datetime_abs :: "nat \<Rightarrow> nat \<Rightarrow> nat \<Rightarrow> datetime"
  is "\<lambda>y m d. if valid_ymd (y, m, d) then (y, m, d) else (1, 1, 1)"
proof -
  fix y m d :: nat
  have "valid_ymd (1, 1, 1)"
    by (simp add: valid_ymd_def days_in_month_def mdays_def)
  then show "valid_ymd (if valid_ymd (y, m, d) then (y, m, d) else (1, 1, 1))"
    by (cases "valid_ymd (y, m, d)") simp_all
qed

definition mk_datetime :: "nat \<Rightarrow> nat \<Rightarrow> nat \<Rightarrow> exn + datetime" where
  "mk_datetime y m d =
     (if valid_ymd (y, m, d) then Inr (datetime_abs y m d) else Inl ValueError)"

definition digit :: "nat \<Rightarrow> char" where
  "digit n = ''0123456789'' ! (n mod 10)"

definition isdigit :: "char \<Rightarrow> bool" where
  "isdigit c = (48 \<le> (of_char c :: nat) \<and> (of_char c :: nat) \<le> 57)"

definition digit_val :: "char \<Rightarrow> nat" where
  "digit_val c = of_char c - 48"

text \<open>\<^verbatim>\<open>str(n)\<close> for a natural number: its decimal digits, without padding.\<close>

fun str_nat :: "nat \<Rightarrow> string" where
  "str_nat n = (if n < 10 then [digit n] else str_nat (n div 10) @ [digit n])"

declare str_nat.simps [simp del]

definition zpad2 :: "nat \<Rightarrow> string" where
  "zpad2 n = [digit (n div 10), digit n]"

text \<open>
  \<^verbatim>\<open>strftime("%Y-%m-%d")\<close> as CPython gives it with the C library of Linux (glibc): the
  month and the day as two digits padded with a zero, the year as its decimal digits
  without padding, so that year 999 is written \<^verbatim>\<open>999\<close> and not \<^verbatim>\<open>0999\<close>.
\<close>

definition strftime_ymd :: "datetime \<Rightarrow> string" where
  "strftime_ymd dt = str_nat (year_of dt) @ ''-'' @ zpad2 (month_of dt) @ ''-'' @ zpad2 (day_of dt)"

section \<open>Validating a date\<close>

text \<open>
  \<^verbatim>\<open>dateutil.parser.parse\<close> is a library outside the repository. It is a parameter of
  the model: a function from the text to the parsed date or to the exception raised.
  Its documentation names ParserError (a ValueError) for a text it cannot read and
  OverflowError for a number beyond the platform's C integers.
\<close>

type_synonym parser = "string \<Rightarrow> exn + datetime"

text \<open>
  \<^verbatim>\<open>validate_date\<close>: the \<^verbatim>\<open>except ValueError\<close> clause turns a ValueError into False;
  any other exception of the parser leaves the function.
\<close>

definition validate_date :: "parser \<Rightarrow> string \<Rightarrow> exn + bool" where
  "validate_date parse date_str =
     (case parse date_str of
        Inr parsed_date \<Rightarrow> Inr (strftime_ymd parsed_date = date_str)
      | Inl e \<Rightarrow> (if e = ValueError then Inr False else Inl e))"

section \<open>The console and the events file\<close>

text \<open>
  The state the program works on: the lines still to be typed (each as \<^verbatim>\<open>input()\<close>
  returns it, without its line terminator), everything written to the terminal, and
  the characters of the events file (\<open>None\<close> while the file does not exist).
\<close>

record world =
  stdin :: "string list"
  stdout :: string
  events_file :: "string option"

text \<open>
  An operation ends normally with the new state, or with an exception that leaves it;
  the state reached when the exception is raised stays with it, since nothing is
  undone.
\<close>

type_synonym 'a result = "(exn \<times> world) + 'a"


text \<open>\<^verbatim>\<open>input(prompt)\<close>: writes the prompt and returns the next line; EOFError at the end.\<close>

definition input :: "string \<Rightarrow> world \<Rightarrow> (string \<times> world) result" where
  "input prompt w =
     (case stdin w of
        [] \<Rightarrow> Inl (EOFError, w\<lparr>stdout := stdout w @ prompt\<rparr>)
      | l # ls \<Rightarrow> Inr (l, w\<lparr>stdin := ls, stdout := stdout w @ prompt\<rparr>))"

text \<open>\<^verbatim>\<open>print(s)\<close> and \<^verbatim>\<open>print(s, end=" ")\<close>\<close>

definition print :: "string \<Rightarrow> world \<Rightarrow> world" where
  "print s w = w\<lparr>stdout := stdout w @ s @ [LF]\<rparr>"

definition print_end_space :: "string \<Rightarrow> world \<Rightarrow> world" where
  "print_end_space s w = w\<lparr>stdout := stdout w @ s @ '' ''\<rparr>"


text \<open>\<^verbatim>\<open>get_valid_date\<close>: asks until a line, stripped, is a valid date.\<close>

function get_valid_date :: "parser \<Rightarrow> string \<Rightarrow> world \<Rightarrow> (string \<times> world) result" where
  "get_valid_date parse prompt w =
     (case input prompt w of
        Inl x \<Rightarrow> Inl x
      | Inr (l, w1) \<Rightarrow>
          (let date_str = strip l in
           case validate_date parse date_str of
             Inl e \<Rightarrow> Inl (e, w1)
           | Inr valid \<Rightarrow>
               if valid then Inr (date_str, w1)
               else get_valid_date parse prompt
                      (print ''Invalid date format. Please use YYYY-MM-DD (e.g., 2025-05-20)'' w1)))"
  by pat_completeness auto
termination
  by (relation "measure (\<lambda>(parse, prompt, w). length (stdin w))")
     (auto simp: input_def print_def split: list.splits)

declare get_valid_date.simps [simp del]

text \<open>
  The text of the \<^verbatim>\<open>IOError\<close> raised by \<^verbatim>\<open>open(filename, 'r')\<close> when the file is
  missing, for the default file name.
\<close>

definition no_such_file :: string where
  "no_such_file = ''[Errno 2] No such file or directory: '' @ [CHR 0x27] @ ''events.txt'' @ [CHR 0x27]"

text \<open>The line \<^verbatim>\<open>f"{date_str} | {description}\n"\<close> of an event.\<close>

definition event_line :: "string \<Rightarrow> string \<Rightarrow> string" where
  "event_line date_str description = date_str @ '' | '' @ description @ [LF]"

text \<open>\<^verbatim>\<open>add_event\<close>: opening for append creates a missing file.\<close>

definition add_event :: "parser \<Rightarrow> world \<Rightarrow> world result" where
  "add_event parse w =
     (case get_valid_date parse ''Enter event date (YYYY-MM-DD): '' w of
        Inl x \<Rightarrow> Inl x
      | Inr (date_str, w1) \<Rightarrow>
          (case input ''Enter event description: '' w1 of
             Inl x \<Rightarrow> Inl x
           | Inr (l, w2) \<Rightarrow>
               (let description = strip l in
                if description = [] then Inr (print ''Event description cannot be empty.'' w2)
                else
                  let content = (case events_file w2 of None \<Rightarrow> [] | Some c \<Rightarrow> c);
                      w3 = w2\<lparr>events_file := Some (content @ event_line date_str description)\<rparr>
                  in Inr (print (''Event added successfully for '' @ date_str @ ''!'') w3))))"

text \<open>
  The loop of \<^verbatim>\<open>view_events\<close> over the lines of the file. Unpacking the result of
  \<^verbatim>\<open>split\<close> into two names raises ValueError unless it has exactly two pieces.
\<close>

fun view_loop :: "string \<Rightarrow> string list \<Rightarrow> world \<Rightarrow> bool \<Rightarrow> (world \<times> bool) result" where
  "view_loop date_str [] w events_found = Inr (w, events_found)"
| "view_loop date_str (line # lines) w events_found =
     (if startswith line date_str then
        (case split1 (strip line) '' | '' of
           [_, description] \<Rightarrow> view_loop date_str lines (print (''- '' @ description) w) True
         | _ \<Rightarrow> Inl (ValueError, w))
      else view_loop date_str lines w events_found)"

definition view_events :: "parser \<Rightarrow> world \<Rightarrow> world result" where
  "view_events parse w =
     (case get_valid_date parse ''Enter date to view events (YYYY-MM-DD): '' w of
        Inl x \<Rightarrow> Inl x
      | Inr (date_str, w1) \<Rightarrow>
          (case events_file w1 of
             None \<Rightarrow> Inr (print (''Error reading from file: '' @ no_such_file @ ''. Please try again.'') w1)
           | Some content \<Rightarrow>
               (let w2 = print (replicate 40 CHR ''-'') (print ([LF] @ ''Events for '' @ date_str @ '':'') w1)
                in case view_loop date_str (readlines content) w2 False of
                     Inl x \<Rightarrow> Inl x
                   | Inr (w3, events_found) \<Rightarrow>
                       if \<not> events_found then Inr (print ''No events found for this date.'' w3)
                       else Inr w3)))"

text \<open>
  The loop of \<^verbatim>\<open>delete_event\<close> over the lines read: \<open>out\<close> is what has been written to
  the reopened (truncated) file so far, \<open>event_found\<close> the flag.
\<close>

fun rewrite_events :: "string \<Rightarrow> string \<Rightarrow> string list \<Rightarrow> string \<Rightarrow> bool \<Rightarrow> string \<times> bool" where
  "rewrite_events date_str description [] out event_found = (out, event_found)"
| "rewrite_events date_str description (line # events) out event_found =
     (if \<not> (startswith line date_str \<and> str_contains line description)
      then rewrite_events date_str description events (out @ line) event_found
      else rewrite_events date_str description events out True)"

text \<open>\<^verbatim>\<open>delete_event\<close>: reads all lines, then rewrites the file from them.\<close>

definition delete_event :: "parser \<Rightarrow> world \<Rightarrow> world result" where
  "delete_event parse w =
     (case get_valid_date parse ''Enter event date (YYYY-MM-DD): '' w of
        Inl x \<Rightarrow> Inl x
      | Inr (date_str, w1) \<Rightarrow>
          (case input ''Enter event description to delete: '' w1 of
             Inl x \<Rightarrow> Inl x
           | Inr (l, w2) \<Rightarrow>
               (let description = strip l in
                if description = [] then Inr (print ''Event description cannot be empty.'' w2)
                else
                  (case events_file w2 of
                     None \<Rightarrow> Inr (print (''Error accessing file: '' @ no_such_file @ ''. Please try again.'') w2)
                   | Some content \<Rightarrow>
                       (let events = readlines content;
                            (out, event_found) = rewrite_events date_str description events [] False;
                            w3 = w2\<lparr>events_file := Some out\<rparr>
                        in if event_found
                           then Inr (print (''Event deleted successfully for '' @ date_str @ ''!'') w3)
                           else Inr (print ''No matching event found with the provided date and description.'' w3))))))"


section \<open>Displaying a month\<close>

text \<open>
  \<^verbatim>\<open>int(s)\<close> on a string, base 10: surrounding whitespace, an optional sign, then digits
  with single underscores allowed between them. Python refuses more than 4300 digits
  with a ValueError as well.
\<close>

fun int_digits :: "nat \<Rightarrow> string \<Rightarrow> nat option" where
  "int_digits acc [] = None"
| "int_digits acc [c] = (if isdigit c then Some (10 * acc + digit_val c) else None)"
| "int_digits acc (c # d # cs) =
     (if \<not> isdigit c then None
      else if d = CHR ''_'' then int_digits (10 * acc + digit_val c) cs
      else int_digits (10 * acc + digit_val c) (d # cs))"

definition py_int :: "string \<Rightarrow> exn + int" where
  "py_int s =
     (let t = strip s;
          (negative, body) =
            (case t of
               [] \<Rightarrow> (False, t)
             | c # r \<Rightarrow> if c = CHR ''-'' then (True, r) else if c = CHR ''+'' then (False, r) else (False, t))
      in if length (filter isdigit body) > 4300 then Inl ValueError
         else (case int_digits 0 body of
                 None \<Rightarrow> Inl ValueError
               | Some n \<Rightarrow> Inr (if negative then - int n else int n)))"

text \<open>\<^verbatim>\<open>str(n)\<close> for an integer.\<close>

definition str_int :: "int \<Rightarrow> string" where
  "str_int i = (if i < 0 then ''-'' @ str_nat (nat (- i)) else str_nat (nat i))"

text \<open>The format \<^verbatim>\<open>{day:2d}\<close>: right-aligned in two columns.\<close>

definition fmt_2d :: "nat \<Rightarrow> string" where
  "fmt_2d day = (let s = str_nat day in replicate (2 - length s) CHR '' '' @ s)"

text \<open>\<^verbatim>\<open>calendar.month_name\<close> in the default (English) locale.\<close>

definition month_name :: "string list" where
  "month_name = ['''', ''January'', ''February'', ''March'', ''April'', ''May'', ''June'', ''July'',
                 ''August'', ''September'', ''October'', ''November'', ''December'']"

text \<open>
  The weekday of a date (Monday is 0), as \<^verbatim>\<open>calendar.weekday\<close> computes it from the
  ordinal of the date; a year outside 1..9999 is replaced by one of the same place in
  the 400-year cycle.
\<close>

definition days_before_year :: "int \<Rightarrow> int" where
  "days_before_year year = (let y = year - 1 in y * 365 + y div 4 - y div 100 + y div 400)"

definition days_before_month :: "int \<Rightarrow> nat \<Rightarrow> int" where
  "days_before_month year month =
     int (sum_list (take month mdays)) + (if month > 2 \<and> isleap year then 1 else 0)"

definition ymd2ord :: "int \<Rightarrow> nat \<Rightarrow> nat \<Rightarrow> int" where
  "ymd2ord year month day = days_before_year year + days_before_month year month + int day"

definition weekday :: "int \<Rightarrow> nat \<Rightarrow> nat \<Rightarrow> nat" where
  "weekday year month day =
     (let y = (if 1 \<le> year \<and> year \<le> 9999 then year else 2000 + year mod 400)
      in nat ((ymd2ord y month day + 6) mod 7))"

text \<open>\<^verbatim>\<open>calendar.monthrange\<close>: IllegalMonthError is a ValueError.\<close>

definition monthrange :: "int \<Rightarrow> int \<Rightarrow> exn + (nat \<times> nat)" where
  "monthrange year month =
     (if \<not> (1 \<le> month \<and> month \<le> 12) then Inl ValueError
      else Inr (weekday year (nat month) 1, days_in_month year (nat month)))"

text \<open>The slices \<^verbatim>\<open>days[i:i+7]\<close> for \<open>i\<close> = 0, 7, 14, ...\<close>

function weeks :: "nat list \<Rightarrow> nat list list" where
  "weeks days = (if days = [] then [] else take 7 days # weeks (drop 7 days))"
  by pat_completeness auto
termination
  by (relation "measure length") auto

declare weeks.simps [simp del]

text \<open>\<^verbatim>\<open>calendar.monthcalendar\<close> with weeks starting on Monday; 0 marks a day outside the month.\<close>

definition monthcalendar :: "int \<Rightarrow> int \<Rightarrow> exn + nat list list" where
  "monthcalendar year month =
     (case monthrange year month of
        Inl e \<Rightarrow> Inl e
      | Inr (day1, ndays) \<Rightarrow>
          (let days_before = day1 mod 7;
               days_after = nat ((- int day1 - int ndays) mod 7)
           in Inr (weeks (replicate days_before 0 @ [1 ..< ndays + 1] @ replicate days_after 0))))"

fun print_week :: "nat list \<Rightarrow> world \<Rightarrow> world" where
  "print_week [] w = w"
| "print_week (day # week) w =
     print_week week (if day = 0 then print_end_space ''  '' w else print_end_space (fmt_2d day) w)"

fun print_cal :: "nat list list \<Rightarrow> world \<Rightarrow> world" where
  "print_cal [] w = w"
| "print_cal (week # cal) w = print_cal cal (print [] (print_week week w))"

text \<open>
  \<^verbatim>\<open>display_calendar\<close>: the \<^verbatim>\<open>except ValueError\<close> clause covers the two conversions
  and the rendering; the EOFError of \<^verbatim>\<open>input\<close> is not caught.
\<close>

definition except_ValueError :: "exn \<Rightarrow> world \<Rightarrow> world result" where
  "except_ValueError e w =
     (if e = ValueError
      then Inr (print ''Invalid input. Please enter numeric values for year and month.'' w)
      else Inl (e, w))"

definition display_calendar :: "world \<Rightarrow> world result" where
  "display_calendar w =
     (case input ''Enter year (e.g., 2025): '' w of
        Inl x \<Rightarrow> Inl x
      | Inr (ys, w1) \<Rightarrow>
          (case py_int (strip ys) of
             Inl e \<Rightarrow> except_ValueError e w1
           | Inr year \<Rightarrow>
               (case input ''Enter month (1-12): '' w1 of
                  Inl x \<Rightarrow> Inl x
                | Inr (ms, w2) \<Rightarrow>
                    (case py_int (strip ms) of
                       Inl e \<Rightarrow> except_ValueError e w2
                     | Inr month \<Rightarrow>
                         if month < 1 \<or> month > 12
                         then Inr (print ''Invalid month. Please enter a number between 1 and 12.'' w2)
                         else
                           (let w3 = print ([LF] @ month_name ! nat month @ '' '' @ str_int year) w2;
                                w4 = print ''Mo Tu We Th Fr Sa Su'' w3
                            in case monthcalendar year month of
                                 Inl e \<Rightarrow> except_ValueError e w4
                               | Inr cal \<Rightarrow> Inr (print_cal cal w4))))))"

section \<open>Dates in canonical form\<close>

text \<open>The number written by a non-empty string of digits.\<close>

fun nat_of_digits :: "nat \<Rightarrow> string \<Rightarrow> nat option" where
  "nat_of_digits acc [] = None"
| "nat_of_digits acc [c] = (if isdigit c then Some (10 * acc + digit_val c) else None)"
| "nat_of_digits acc (c # d # cs) =
     (if isdigit c then nat_of_digits (10 * acc + digit_val c) (d # cs) else None)"

text \<open>
  The year, month and day written by a string of the shape YYYY-MM-DD: ten characters,
  digits around the two hyphens.
\<close>

definition iso_fields :: "string \<Rightarrow> (nat \<times> nat \<times> nat) option" where
  "iso_fields s =
     (if length s = 10 \<and> s ! 4 = CHR ''-'' \<and> s ! 7 = CHR ''-'' then
        (case (nat_of_digits 0 (take 4 s), nat_of_digits 0 (take 2 (drop 5 s)), nat_of_digits 0 (drop 8 s)) of
           (Some y, Some m, Some d) \<Rightarrow> Some (y, m, d)
         | _ \<Rightarrow> None)
      else None)"

text \<open>A real calendar date written exactly as YYYY-MM-DD.\<close>

definition is_iso_date :: "string \<Rightarrow> bool" where
  "is_iso_date s = (case iso_fields s of Some p \<Rightarrow> valid_ymd p | None \<Rightarrow> False)"







section \<open>A small parser to run the operations with\<close>

text \<open>
  The theorems below hold for every parser. To run the operations on concrete input a
  parser is needed; this one reads three groups of digits separated by hyphens as year,
  month and day (so it also reads \<^verbatim>\<open>2025-5-2\<close>), raises OverflowError on a lone number
  beyond a 32-bit C integer, as dateutil does when it passes such a year on to
  \<^verbatim>\<open>datetime\<close>, and raises ValueError on everything else.
\<close>

definition sample_parse :: parser where
  "sample_parse s =
     (case split1 s ''-'' of
        [y, rest] \<Rightarrow>
          (case split1 rest ''-'' of
             [m, d] \<Rightarrow>
               (case (nat_of_digits 0 y, nat_of_digits 0 m, nat_of_digits 0 d) of
                  (Some yv, Some mv, Some dv) \<Rightarrow> mk_datetime yv mv dv
                | _ \<Rightarrow> Inl ValueError)
           | _ \<Rightarrow> Inl ValueError)
      | _ \<Rightarrow>
          (case nat_of_digits 0 s of
             Some v \<Rightarrow> if v > 2147483647 then Inl OverflowError else Inl ValueError
           | None \<Rightarrow> Inl ValueError))"

section \<open>Notions used in the proofs\<close>

text \<open>A line that ends with its terminator and has no other in it.\<close>

definition terminated :: "string \<Rightarrow> bool" where
  "terminated l = (l \<noteq> [] \<and> last l = LF \<and> LF \<notin> set (butlast l))"

text \<open>The lists of lines a text splits into: only the last one may lack its terminator.\<close>

fun proper_lines :: "string list \<Rightarrow> bool" where
  "proper_lines [] = True"
| "proper_lines [l] = (l \<noteq> [] \<and> LF \<notin> set (butlast l))"
| "proper_lines (l # l' # ls) = (terminated l \<and> proper_lines (l' # ls))"

text \<open>The event that \<^verbatim>\<open>delete_event\<close> looks for in a line.\<close>

definition matches :: "string \<Rightarrow> string \<Rightarrow> string \<Rightarrow> bool" where
  "matches date_str description line = (startswith line date_str \<and> str_contains line description)"

text \<open>A year written with four digits, padded with zeros.\<close>

definition zpad4 :: "nat \<Rightarrow> string" where
  "zpad4 n = [digit (n div 1000), digit (n div 100), digit (n div 10), digit n]"

section \<open>Facts about the string primitives\<close>


lemma startswith_iff: "startswith s p \<longleftrightarrow> (\<exists>r. s = p @ r)"
  unfolding startswith_def
  by (metis append_eq_conv_conj append_take_drop_id)

lemma find_None_iff: "find s sub = None \<longleftrightarrow> \<not> (\<exists>p q. s = p @ sub @ q)"
proof (induction s)
  case Nil
  then show ?case by auto
next
  case (Cons c cs)
  show ?case
  proof (cases "startswith (c # cs) sub")
    case True
    then obtain r where "c # cs = [] @ sub @ r"
      by (auto simp: startswith_iff)
    then have "\<exists>p q. c # cs = p @ sub @ q" by blast
    with True show ?thesis by simp
  next
    case False
    have "(\<exists>p q. c # cs = p @ sub @ q) \<longleftrightarrow> (\<exists>p q. cs = p @ sub @ q)"
    proof
      assume "\<exists>p q. c # cs = p @ sub @ q"
      then obtain p q where pq: "c # cs = p @ sub @ q" by blast
      show "\<exists>p q. cs = p @ sub @ q"
      proof (cases p)
        case Nil
        with pq have "startswith (c # cs) sub" by (simp add: startswith_iff)
        with False show ?thesis by simp
      next
        case (Cons a p')
        with pq have "cs = p' @ sub @ q" by simp
        then show ?thesis by blast
      qed
    next
      assume "\<exists>p q. cs = p @ sub @ q"
      then obtain p q where "cs = p @ sub @ q" by blast
      then have "c # cs = (c # p) @ sub @ q" by simp
      then show "\<exists>p q. c # cs = p @ sub @ q" by blast
    qed
    with False Cons.IH show ?thesis by simp
  qed
qed

lemma str_contains_iff: "str_contains s sub \<longleftrightarrow> (\<exists>p q. s = p @ sub @ q)"
  using find_None_iff [of s sub] by (simp add: str_contains_def)



lemma rstrip_decomp: "\<exists>q. s = rstrip s @ q \<and> list_all isspace q"
proof -
  have "rev s = takeWhile isspace (rev s) @ dropWhile isspace (rev s)" by simp
  then have "s = rev (dropWhile isspace (rev s)) @ rev (takeWhile isspace (rev s))"
    by (metis rev_append rev_rev_ident)
  moreover have "list_all isspace (rev (takeWhile isspace (rev s)))"
    by (auto simp: list_all_iff dest: set_takeWhileD)
  ultimately show ?thesis unfolding rstrip_def by blast
qed

lemma lstrip_decomp: "\<exists>p. s = p @ lstrip s \<and> list_all isspace p"
proof -
  have "s = takeWhile isspace s @ dropWhile isspace s" by simp
  moreover have "list_all isspace (takeWhile isspace s)"
    by (auto simp: list_all_iff dest: set_takeWhileD)
  ultimately show ?thesis unfolding lstrip_def by blast
qed

lemma strip_decomp: "\<exists>p q. s = p @ strip s @ q \<and> list_all isspace p \<and> list_all isspace q"
proof -
  obtain q where q: "s = rstrip s @ q" "list_all isspace q"
    using rstrip_decomp by blast
  obtain p where p: "rstrip s = p @ lstrip (rstrip s)" "list_all isspace p"
    using lstrip_decomp by blast
  from q(1) p(1) have "s = p @ strip s @ q" by (metis append_assoc strip_def)
  with p(2) q(2) show ?thesis by blast
qed

lemma rstrip_append_space: "list_all isspace b \<Longrightarrow> rstrip (s @ b) = rstrip s"
proof -
  assume "list_all isspace b"
  then have "dropWhile isspace (rev b @ rev s) = dropWhile isspace (rev s)"
    by (intro dropWhile_append2) (simp add: list_all_iff)
  then show ?thesis by (simp add: rstrip_def)
qed

lemma lstrip_append_space: "list_all isspace a \<Longrightarrow> lstrip (a @ s) = lstrip s"
  unfolding lstrip_def by (intro dropWhile_append2) (simp add: list_all_iff)

lemma rstrip_id: "s \<noteq> [] \<Longrightarrow> \<not> isspace (last s) \<Longrightarrow> rstrip s = s"
  by (cases s rule: rev_cases) (simp_all add: rstrip_def)

lemma lstrip_id: "s \<noteq> [] \<Longrightarrow> \<not> isspace (hd s) \<Longrightarrow> lstrip s = s"
  by (cases s) (simp_all add: lstrip_def)

lemma strip_id: "s \<noteq> [] \<Longrightarrow> \<not> isspace (hd s) \<Longrightarrow> \<not> isspace (last s) \<Longrightarrow> strip s = s"
  by (simp add: strip_def rstrip_id lstrip_id)

lemma rstrip_last: "rstrip s \<noteq> [] \<Longrightarrow> \<not> isspace (last (rstrip s))"
proof -
  assume "rstrip s \<noteq> []"
  then have ne: "dropWhile isspace (rev s) \<noteq> []" by (simp add: rstrip_def)
  then have "\<not> isspace (hd (dropWhile isspace (rev s)))"
    by (rule hd_dropWhile)
  with ne show ?thesis by (simp add: rstrip_def last_rev)
qed

lemma lstrip_hd: "lstrip s \<noteq> [] \<Longrightarrow> \<not> isspace (hd (lstrip s))"
  unfolding lstrip_def by (rule hd_dropWhile)

lemma lstrip_last: "lstrip s \<noteq> [] \<Longrightarrow> last (lstrip s) = last s"
  unfolding lstrip_def
  by (metis last_appendR takeWhile_dropWhile_id)

lemma strip_ends:
  assumes "strip s \<noteq> []"
  shows "\<not> isspace (hd (strip s))" and "\<not> isspace (last (strip s))"
proof -
  from assms show "\<not> isspace (hd (strip s))"
    unfolding strip_def by (rule lstrip_hd)
  from assms have ne: "rstrip s \<noteq> []"
    by (auto simp: strip_def lstrip_def)
  from assms have "last (strip s) = last (rstrip s)"
    unfolding strip_def by (rule lstrip_last)
  with rstrip_last [OF ne] show "\<not> isspace (last (strip s))" by simp
qed

lemma strip_surround:
  "list_all isspace a \<Longrightarrow> list_all isspace b \<Longrightarrow> strip (a @ s @ b) = strip s"
proof -
  assume a: "list_all isspace a" and b: "list_all isspace b"
  have "rstrip (a @ s @ b) = rstrip (a @ s)"
    using rstrip_append_space [OF b, of "a @ s"] by simp
  moreover have "lstrip (rstrip (a @ s)) = lstrip (rstrip s)"
  proof (cases "rstrip s = []")
    case True
    then have "list_all isspace s"
      by (simp add: rstrip_def list_all_iff)
    with a have "list_all isspace (a @ s)" by simp
    then have "rstrip (a @ s) = []"
      by (auto simp: rstrip_def list_all_iff)
    with True show ?thesis by simp
  next
    case False
    obtain q where q: "s = rstrip s @ q" "list_all isspace q"
      using rstrip_decomp by blast
    have "rstrip (a @ s) = rstrip ((a @ rstrip s) @ q)"
      using q(1) by simp
    also have "\<dots> = rstrip (a @ rstrip s)"
      by (rule rstrip_append_space [OF q(2)])
    also have "\<dots> = a @ rstrip s"
      using False rstrip_last [OF False] by (intro rstrip_id) simp_all
    finally show ?thesis by (simp add: lstrip_append_space [OF a])
  qed
  ultimately show ?thesis by (simp add: strip_def)
qed

lemma strip_Nil_iff: "strip s = [] \<longleftrightarrow> list_all isspace s"
proof
  assume "strip s = []"
  with strip_decomp [of s] show "list_all isspace s" by auto
next
  assume "list_all isspace s"
  then have "rstrip s = []"
    by (auto simp: rstrip_def list_all_iff)
  then show "strip s = []"
    by (simp add: strip_def lstrip_def)
qed


lemma str_contains_strip: "str_contains (strip s) sub \<Longrightarrow> str_contains s sub"
proof -
  assume "str_contains (strip s) sub"
  then obtain p q where "strip s = p @ sub @ q" by (auto simp: str_contains_iff)
  moreover obtain p' q' where "s = p' @ strip s @ q'" using strip_decomp by blast
  ultimately have "s = (p' @ p) @ sub @ (q @ q')" by simp
  then show ?thesis unfolding str_contains_iff by blast
qed

lemma concat_split_lines: "concat (split_lines s) = s"
  by (induction s) (auto split: list.splits)

lemma split_lines_terminated:
  "LF \<notin> set b \<Longrightarrow> split_lines (b @ LF # rest) = (b @ [LF]) # split_lines rest"
  by (induction b) auto

lemma split_lines_no_LF: "s \<noteq> [] \<Longrightarrow> LF \<notin> set s \<Longrightarrow> split_lines s = [s]"
proof (induction s)
  case Nil
  then show ?case by simp
next
  case (Cons c s)
  then show ?case by (cases "s = []") auto
qed

lemma terminated_iff: "terminated l \<longleftrightarrow> (\<exists>b. l = b @ [LF] \<and> LF \<notin> set b)"
  unfolding terminated_def
  by (cases l rule: rev_cases) auto

lemma split_lines_line: "l \<noteq> [] \<Longrightarrow> LF \<notin> set (butlast l) \<Longrightarrow> split_lines l = [l]"
proof (cases l rule: rev_cases)
  case Nil
  assume "l \<noteq> []"
  with Nil show ?thesis by simp
next
  case (snoc b c)
  assume "LF \<notin> set (butlast l)"
  with snoc have b: "LF \<notin> set b" by simp
  show ?thesis
  proof (cases "c = LF")
    case True
    with snoc split_lines_terminated [OF b, of "[]"] show ?thesis by simp
  next
    case False
    with b snoc have "LF \<notin> set l" by simp
    with snoc show ?thesis by (intro split_lines_no_LF) simp_all
  qed
qed

lemma proper_lines_Cons:
  "terminated l \<Longrightarrow> proper_lines ls \<Longrightarrow> proper_lines (l # ls)"
  by (cases ls) (auto simp: terminated_def)

lemma proper_lines_filter: "proper_lines ls \<Longrightarrow> proper_lines (filter P ls)"
proof (induction ls rule: proper_lines.induct)
  case 1
  then show ?case by simp
next
  case (2 l)
  then show ?case by simp
next
  case (3 l l' ls)
  from "3.prems" have t: "terminated l" and pl: "proper_lines (l' # ls)"
    by simp_all
  from "3.IH" [OF pl] have f: "proper_lines (filter P (l' # ls))" .
  show ?case
  proof (cases "P l")
    case True
    with proper_lines_Cons [OF t f] show ?thesis by simp
  next
    case False
    with f show ?thesis by simp
  qed
qed

lemma proper_lines_split_lines: "proper_lines (split_lines s)"
proof (induction s)
  case Nil
  then show ?case by simp
next
  case (Cons c s)
  show ?case
  proof (cases "c = LF")
    case True
    have "terminated [LF]" by (simp add: terminated_def)
    with Cons True show ?thesis by (simp add: proper_lines_Cons)
  next
    case False
    show ?thesis
    proof (cases "split_lines s")
      case Nil
      with False show ?thesis by simp
    next
      case (Cons l ls)
      with \<open>proper_lines (split_lines s)\<close> have pl: "proper_lines (l # ls)" by simp
      have "proper_lines ((c # l) # ls)"
      proof (cases ls)
        case Nil
        with pl False show ?thesis by (cases l) auto
      next
        case (Cons l' ls')
        with pl False show ?thesis by (cases l) (auto simp: terminated_def)
      qed
      with Cons False show ?thesis by simp
    qed
  qed
qed

lemma split_lines_concat: "proper_lines ls \<Longrightarrow> split_lines (concat ls) = ls"
proof (induction ls rule: proper_lines.induct)
  case 1
  then show ?case by simp
next
  case (2 l)
  then show ?case by (simp add: split_lines_line)
next
  case (3 l l' ls)
  then obtain b where b: "l = b @ [LF]" "LF \<notin> set b"
    by (auto simp: terminated_iff)
  from 3 have "split_lines (concat (l' # ls)) = l' # ls" by simp
  with b show ?case
    using split_lines_terminated [OF b(2), of "concat (l' # ls)"] by simp
qed





lemma universal_newlines_no_CR: "CR \<notin> set (universal_newlines s)"
  by (induction s rule: universal_newlines.induct) auto

lemma universal_newlines_id: "CR \<notin> set s \<Longrightarrow> universal_newlines s = s"
  by (induction s rule: universal_newlines.induct) auto


lemma concat_readlines: "concat (readlines s) = universal_newlines s"
  by (simp add: readlines_def concat_split_lines)

lemma readlines_no_CR: "CR \<notin> set s \<Longrightarrow> readlines s = split_lines s"
  by (simp add: readlines_def universal_newlines_id)

lemma readlines_lines_no_CR: "l \<in> set (readlines s) \<Longrightarrow> CR \<notin> set l"
proof
  assume "l \<in> set (readlines s)" and "CR \<in> set l"
  then have "CR \<in> set (concat (readlines s))" by auto
  then show False by (simp add: concat_readlines universal_newlines_no_CR)
qed

lemma proper_lines_readlines: "proper_lines (readlines s)"
  by (simp add: readlines_def proper_lines_split_lines)

lemma readlines_concat_filter:
  "readlines (concat (filter P (readlines s))) = filter P (readlines s)"
proof -
  have "CR \<notin> set (concat (filter P (readlines s)))"
    by (auto dest: readlines_lines_no_CR)
  then have "readlines (concat (filter P (readlines s))) =
      split_lines (concat (filter P (readlines s)))"
    by (rule readlines_no_CR)
  also have "\<dots> = filter P (readlines s)"
    by (intro split_lines_concat proper_lines_filter proper_lines_readlines)
  finally show ?thesis .
qed


section \<open>Facts about dates\<close>

lemma mod10_cases:
  "(n::nat) mod 10 = 0 \<or> n mod 10 = 1 \<or> n mod 10 = 2 \<or> n mod 10 = 3 \<or> n mod 10 = 4 \<or>
   n mod 10 = 5 \<or> n mod 10 = 6 \<or> n mod 10 = 7 \<or> n mod 10 = 8 \<or> n mod 10 = 9"
  by arith

lemma isdigit_digit: "isdigit (digit n)"
  using mod10_cases [of n] unfolding digit_def isdigit_def by (elim disjE) simp_all

lemma digit_val_digit: "digit_val (digit n) = n mod 10"
  using mod10_cases [of n] unfolding digit_def digit_val_def by (elim disjE) simp_all

lemma isdigit_cases:
  "isdigit c \<Longrightarrow> c \<in> set ''0123456789''"
proof -
  define n where "n = (of_char c :: nat)"
  assume "isdigit c"
  then have "48 \<le> n" and "n \<le> 57"
    by (simp_all add: isdigit_def n_def)
  then have "n = 48 \<or> n = 49 \<or> n = 50 \<or> n = 51 \<or> n = 52 \<or> n = 53 \<or> n = 54 \<or>
             n = 55 \<or> n = 56 \<or> n = 57"
    by arith
  moreover have "c = d" if "n = of_char d" for d
    using that by (simp add: n_def)
  from this [of "CHR ''0''"] this [of "CHR ''1''"] this [of "CHR ''2''"] this [of "CHR ''3''"]
    this [of "CHR ''4''"] this [of "CHR ''5''"] this [of "CHR ''6''"] this [of "CHR ''7''"]
    this [of "CHR ''8''"] this [of "CHR ''9''"]
  have "n = 48 \<Longrightarrow> c = CHR ''0''" "n = 49 \<Longrightarrow> c = CHR ''1''" "n = 50 \<Longrightarrow> c = CHR ''2''"
    "n = 51 \<Longrightarrow> c = CHR ''3''" "n = 52 \<Longrightarrow> c = CHR ''4''" "n = 53 \<Longrightarrow> c = CHR ''5''"
    "n = 54 \<Longrightarrow> c = CHR ''6''" "n = 55 \<Longrightarrow> c = CHR ''7''" "n = 56 \<Longrightarrow> c = CHR ''8''"
    "n = 57 \<Longrightarrow> c = CHR ''9''"
    by simp_all
  ultimately show ?thesis
    by (elim disjE) simp_all
qed

lemma digit_digit_val: "isdigit c \<Longrightarrow> digit (digit_val c) = c"
  by (drule isdigit_cases) (auto simp: digit_def digit_val_def)

lemma digit_val_less: "isdigit c \<Longrightarrow> digit_val c < 10"
  by (auto simp: isdigit_def digit_val_def)

lemma isdigit_not_space: "isdigit c \<Longrightarrow> \<not> isspace c"
  by (auto simp: isdigit_def isspace_def)

lemma datetime_valid: "valid_ymd (year_of dt, month_of dt, day_of dt)"
proof -
  obtain y m d where r: "Rep_datetime dt = (y, m, d)"
    by (metis prod_cases3)
  with Rep_datetime [of dt] show ?thesis
    by (simp add: year_of.rep_eq month_of.rep_eq day_of.rep_eq)
qed

lemma days_in_month_le: "m \<le> 12 \<Longrightarrow> days_in_month y m \<le> 31"
proof -
  assume "m \<le> 12"
  then have "m = 0 \<or> m = 1 \<or> m = 2 \<or> m = 3 \<or> m = 4 \<or> m = 5 \<or> m = 6 \<or> m = 7 \<or> m = 8 \<or>
             m = 9 \<or> m = 10 \<or> m = 11 \<or> m = 12"
    by arith
  then show ?thesis
    by (elim disjE) (simp_all add: days_in_month_def mdays_def)
qed

lemma datetime_bounds:
  "year_of dt \<le> 9999" "month_of dt \<le> 12" "day_of dt \<le> 31"
  using datetime_valid [of dt] days_in_month_le [of "month_of dt" "int (year_of dt)"]
  by (auto simp: valid_ymd_def)

lemma decimal_step: "(n::nat) = 10 * (n div 10) + n mod 10"
  by simp

lemma d100: "(n::nat) div 10 div 10 = n div 100"
  by (simp add: div_mult2_eq [symmetric])

lemma d1000: "(n::nat) div 100 div 10 = n div 1000"
  by (simp add: div_mult2_eq [symmetric])

lemma div_1000_less: "n \<le> 9999 \<Longrightarrow> (n::nat) div 1000 < 10"
  by (simp add: less_mult_imp_div_less)

lemma digits4: 
  assumes "n \<le> 9999"
  shows "10 * (10 * (10 * (n div 1000 mod 10) + n div 100 mod 10) + n div 10 mod 10) + n mod 10 = (n::nat)"
proof -
  have "n div 1000 mod 10 = n div 1000"
    using div_1000_less [OF assms] by simp
  moreover have "10 * (n div 1000) + n div 100 mod 10 = n div 100"
    using decimal_step [of "n div 100"] by (simp add: d1000)
  moreover have "10 * (n div 100) + n div 10 mod 10 = n div 10"
    using decimal_step [of "n div 10"] by (simp add: d100)
  ultimately show ?thesis by simp
qed

lemma digits2:
  assumes "n \<le> 99"
  shows "10 * (n div 10 mod 10) + n mod 10 = (n::nat)"
proof -
  have "n div 10 < 10" using assms by (simp add: less_mult_imp_div_less)
  then show ?thesis by simp
qed

lemma dec4:
  assumes "p < 10" "q < 10" "r < 10" "t < (10::nat)"
    and k1: "k1 = 10 * p + q" and k2: "k2 = 10 * k1 + r" and y: "y = 10 * k2 + t"
  shows "y div 1000 mod 10 = p" "y div 100 mod 10 = q" "y div 10 mod 10 = r" "y mod 10 = t"
proof -
  have a: "y div 10 = k2" using assms(4) y by simp
  have "y div 100 = k2 div 10" using a d100 [of y] by simp
  then have b: "y div 100 = k1" using assms(3) k2 by simp
  have "y div 1000 = k1 div 10" using b d1000 [of y] by simp
  then have c: "y div 1000 = p" using assms(2) k1 by simp
  show "y div 1000 mod 10 = p" using c assms(1) by simp
  show "y div 100 mod 10 = q" using b k1 assms(2) by simp
  show "y div 10 mod 10 = r" using a k2 assms(3) by simp
  show "y mod 10 = t" using y assms(4) by simp
qed

lemma dec2:
  assumes "p < 10" "q < (10::nat)" and y: "y = 10 * p + q"
  shows "y div 10 mod 10 = p" "y mod 10 = q"
  using assms by simp_all

lemma nat_of_digits_zpad4: "n \<le> 9999 \<Longrightarrow> nat_of_digits 0 (zpad4 n) = Some n"
  using digits4 [of n] by (simp add: zpad4_def isdigit_digit digit_val_digit)

lemma nat_of_digits_zpad2: "n \<le> 99 \<Longrightarrow> nat_of_digits 0 (zpad2 n) = Some n"
  using digits2 [of n] by (simp add: zpad2_def isdigit_digit digit_val_digit)

lemma iso_fields_padded:
  assumes "y \<le> 9999" and "m \<le> 99" and "d \<le> 99"
  shows "iso_fields (zpad4 y @ ''-'' @ zpad2 m @ ''-'' @ zpad2 d) = Some (y, m, d)"
proof -
  have "nat_of_digits 0 (zpad4 y) = Some y" "nat_of_digits 0 (zpad2 m) = Some m"
    "nat_of_digits 0 (zpad2 d) = Some d"
    using assms by (simp_all add: nat_of_digits_zpad4 nat_of_digits_zpad2)
  moreover have "length (zpad4 y) = 4" "length (zpad2 m) = 2" "length (zpad2 d) = 2"
    by (simp_all add: zpad4_def zpad2_def)
  ultimately show ?thesis
    by (simp add: iso_fields_def nth_append)
qed

lemma digit_mod: "digit (n mod 10) = digit n"
  by (simp add: digit_def)

lemma nat_of_digits_4:
  assumes h: "nat_of_digits 0 [a, b, c, d] = Some y"
  shows "isdigit a \<and> isdigit b \<and> isdigit c \<and> isdigit d \<and> zpad4 y = [a, b, c, d]"
proof -
  from h have dg: "isdigit a" "isdigit b" "isdigit c" "isdigit d"
    by (auto split: if_splits)
  define k1 where "k1 = 10 * digit_val a + digit_val b"
  define k2 where "k2 = 10 * k1 + digit_val c"
  from h dg have y: "y = 10 * k2 + digit_val d"
    by (simp add: k1_def k2_def)
  note dec = dec4 [OF digit_val_less [OF dg(1)] digit_val_less [OF dg(2)]
      digit_val_less [OF dg(3)] digit_val_less [OF dg(4)] k1_def k2_def y]
  have "digit (y div 1000) = a"
    using digit_mod [of "y div 1000"] dec(1) dg(1) by (simp add: digit_digit_val)
  moreover have "digit (y div 100) = b"
    using digit_mod [of "y div 100"] dec(2) dg(2) by (simp add: digit_digit_val)
  moreover have "digit (y div 10) = c"
    using digit_mod [of "y div 10"] dec(3) dg(3) by (simp add: digit_digit_val)
  moreover have "digit y = d"
    using digit_mod [of y] dec(4) dg(4) by (simp add: digit_digit_val)
  ultimately show ?thesis
    using dg by (simp add: zpad4_def)
qed

lemma nat_of_digits_2:
  assumes h: "nat_of_digits 0 [a, b] = Some y"
  shows "isdigit a \<and> isdigit b \<and> zpad2 y = [a, b]"
proof -
  from h have dg: "isdigit a" "isdigit b"
    by (auto split: if_splits)
  from h dg have y: "y = 10 * digit_val a + digit_val b"
    by simp
  note dec = dec2 [OF digit_val_less [OF dg(1)] digit_val_less [OF dg(2)] y]
  have "digit (y div 10) = a"
    using digit_mod [of "y div 10"] dec(1) dg(1) by (simp add: digit_digit_val)
  moreover have "digit y = b"
    using digit_mod [of y] dec(2) dg(2) by (simp add: digit_digit_val)
  ultimately show ?thesis
    using dg by (simp add: zpad2_def)
qed

lemma length_10:
  "length s = 10 \<Longrightarrow> s = [s ! 0, s ! 1, s ! 2, s ! 3, s ! 4, s ! 5, s ! 6, s ! 7, s ! 8, s ! 9]"
  by (rule nth_equalityI) (auto simp: nth_Cons' less_Suc_eq numeral_eq_Suc)

lemma str_nat_digits: "list_all isdigit (str_nat n) \<and> str_nat n \<noteq> []"
proof (induction n rule: str_nat.induct)
  case (1 n)
  show ?case
  proof (cases "n < 10")
    case True
    then show ?thesis by (subst str_nat.simps, subst str_nat.simps) (simp add: isdigit_digit)
  next
    case False
    with 1 show ?thesis by (subst str_nat.simps, subst str_nat.simps) (simp add: isdigit_digit)
  qed
qed

lemma str_nat_1: "n < 10 \<Longrightarrow> str_nat n = [digit n]"
  by (subst str_nat.simps) simp

lemma str_nat_2: "10 \<le> n \<Longrightarrow> n < 100 \<Longrightarrow> str_nat n = [digit (n div 10), digit n]"
proof -
  assume "10 \<le> n" and "n < 100"
  then have "n div 10 < 10" by simp
  with \<open>10 \<le> n\<close> show ?thesis
    by (subst str_nat.simps) (simp add: str_nat_1)
qed

lemma str_nat_3:
  "100 \<le> n \<Longrightarrow> n < 1000 \<Longrightarrow> str_nat n = [digit (n div 100), digit (n div 10), digit n]"
proof -
  assume "100 \<le> n" and "n < 1000"
  then have "10 \<le> n div 10" and "n div 10 < 100" by simp_all
  with \<open>100 \<le> n\<close> show ?thesis
    by (subst str_nat.simps) (simp add: str_nat_2 d100)
qed

lemma str_nat_zpad4: "1000 \<le> n \<Longrightarrow> n \<le> 9999 \<Longrightarrow> str_nat n = zpad4 n"
proof -
  assume "1000 \<le> n" and "n \<le> 9999"
  then have "100 \<le> n div 10" and "n div 10 < 1000" by simp_all
  with \<open>1000 \<le> n\<close> show ?thesis
    by (subst str_nat.simps) (simp add: str_nat_3 d100 zpad4_def div_mult2_eq [symmetric])
qed

lemma str_nat_short: "n < 1000 \<Longrightarrow> length (str_nat n) \<le> 3"
proof -
  assume "n < 1000"
  then consider "n < 10" | "10 \<le> n" "n < 100" | "100 \<le> n" "n < 1000" by linarith
  then show ?thesis
    by cases (simp_all add: str_nat_1 str_nat_2 str_nat_3)
qed

lemma strftime_length: "length (strftime_ymd dt) = length (str_nat (year_of dt)) + 6"
  by (simp add: strftime_ymd_def zpad2_def)

lemma strftime_padded:
  "1000 \<le> year_of dt \<Longrightarrow>
   strftime_ymd dt = zpad4 (year_of dt) @ ''-'' @ zpad2 (month_of dt) @ ''-'' @ zpad2 (day_of dt)"
  using datetime_bounds(1) [of dt] by (simp add: strftime_ymd_def str_nat_zpad4)

lemma strftime_length_10: "length (strftime_ymd dt) = 10 \<longleftrightarrow> 1000 \<le> year_of dt"
proof
  assume "length (strftime_ymd dt) = 10"
  then have "length (str_nat (year_of dt)) = 4" by (simp add: strftime_length)
  with str_nat_short [of "year_of dt"] show "1000 \<le> year_of dt" by (cases "year_of dt < 1000") auto
next
  assume "1000 \<le> year_of dt"
  then show "length (strftime_ymd dt) = 10"
    by (simp add: strftime_padded zpad4_def zpad2_def)
qed

lemma iso_fields_shape:
  assumes "iso_fields s = Some (y, m, d)"
  shows "s = zpad4 y @ ''-'' @ zpad2 m @ ''-'' @ zpad2 d"
proof -
  from assms have len: "length s = 10" and h4: "s ! 4 = CHR ''-''" and h7: "s ! 7 = CHR ''-''"
    by (auto simp: iso_fields_def split: if_splits)
  obtain a0 a1 a2 a3 a5 a6 a8 a9
    where s: "s = [a0, a1, a2, a3, CHR ''-'', a5, a6, CHR ''-'', a8, a9]"
    using length_10 [OF len] h4 h7 by metis
  from assms have "nat_of_digits 0 [a0, a1, a2, a3] = Some y"
    "nat_of_digits 0 [a5, a6] = Some m" "nat_of_digits 0 [a8, a9] = Some d"
    unfolding iso_fields_def s by (auto split: option.splits if_splits)
  from nat_of_digits_4 [OF this(1)] nat_of_digits_2 [OF this(2)] nat_of_digits_2 [OF this(3)]
  show ?thesis unfolding s by simp
qed

lemma strftime_of_fields:
  assumes "iso_fields s = Some (year_of dt, month_of dt, day_of dt)"
  shows "strftime_ymd dt = s \<longleftrightarrow> 1000 \<le> year_of dt"
proof
  assume "strftime_ymd dt = s"
  moreover from assms have "length s = 10"
    by (auto simp: iso_fields_def split: if_splits)
  ultimately show "1000 \<le> year_of dt" by (simp add: strftime_length_10 [symmetric])
next
  assume "1000 \<le> year_of dt"
  with iso_fields_shape [OF assms] show "strftime_ymd dt = s"
    by (simp add: strftime_padded)
qed

lemma strftime_iso: "length (strftime_ymd dt) = 10 \<Longrightarrow> is_iso_date (strftime_ymd dt)"
proof -
  assume "length (strftime_ymd dt) = 10"
  then have y: "1000 \<le> year_of dt" by (simp add: strftime_length_10)
  have "iso_fields (strftime_ymd dt) = Some (year_of dt, month_of dt, day_of dt)"
    unfolding strftime_padded [OF y]
    using datetime_bounds [of dt] by (intro iso_fields_padded) simp_all
  then show ?thesis by (simp add: is_iso_date_def datetime_valid)
qed

lemma strftime_shape:
  "\<exists>ys a b c d. strftime_ymd dt = ys @ CHR ''-'' # [a, b, CHR ''-'', c, d] \<and>
     list_all isdigit ys \<and> ys \<noteq> [] \<and> isdigit a \<and> isdigit b \<and> isdigit c \<and> isdigit d"
  using str_nat_digits [of "year_of dt"]
  by (simp add: strftime_ymd_def zpad2_def isdigit_digit)

lemma validate_date_True_iff:
  "validate_date parse s = Inr True \<longleftrightarrow> (\<exists>dt. parse s = Inr dt \<and> strftime_ymd dt = s)"
  by (auto simp: validate_date_def split: sum.splits)

lemma validate_date_shape:
  assumes "validate_date parse s = Inr True"
  shows "\<exists>ys a b c d. s = ys @ CHR ''-'' # [a, b, CHR ''-'', c, d] \<and>
     list_all isdigit ys \<and> ys \<noteq> [] \<and> isdigit a \<and> isdigit b \<and> isdigit c \<and> isdigit d"
  using assms strftime_shape unfolding validate_date_True_iff by metis

lemma validate_date_iso:
  "validate_date parse s = Inr True \<Longrightarrow> length s = 10 \<Longrightarrow> is_iso_date s"
  unfolding validate_date_True_iff using strftime_iso by auto

lemma date_chars:
  assumes "validate_date parse s = Inr True"
  shows "s \<noteq> []" and "isdigit (hd s)" and "isdigit (last s)"
    and "list_all (\<lambda>c. isdigit c \<or> c = CHR ''-'') s"
proof -
  from validate_date_shape [OF assms] obtain ys a b c d where
    s: "s = ys @ CHR ''-'' # [a, b, CHR ''-'', c, d]" and ys: "list_all isdigit ys" "ys \<noteq> []"
    and dg: "isdigit a" "isdigit b" "isdigit c" "isdigit d"
    by blast
  show "s \<noteq> []" by (simp add: s)
  from ys show "isdigit (hd s)" by (cases ys) (simp_all add: s)
  from dg show "isdigit (last s)" by (simp add: s)
  from ys dg show "list_all (\<lambda>c. isdigit c \<or> c = CHR ''-'') s"
    by (auto simp: s list_all_iff)
qed





lemma strip_date: "validate_date parse s = Inr True \<Longrightarrow> strip s = s"
  using date_chars(1-3) [of parse s] isdigit_not_space by (intro strip_id) auto

lemma strip_date_surround:
  "validate_date parse s = Inr True \<Longrightarrow> list_all isspace a \<Longrightarrow> list_all isspace b \<Longrightarrow>
   strip (a @ s @ b) = s"
  by (simp add: strip_surround strip_date)



lemma strftime_not_loose: "strftime_ymd dt \<noteq> ''2025-5-2''"
proof
  assume a: "strftime_ymd dt = ''2025-5-2''"
  from strftime_shape [of dt] obtain ys a b c d where
    s: "strftime_ymd dt = ys @ CHR ''-'' # [a, b, CHR ''-'', c, d]" and c: "isdigit c"
    by blast
  from a s have "rev (ys @ CHR ''-'' # [a, b, CHR ''-'', c, d]) = rev ''2025-5-2''"
    by simp
  then have "c = CHR ''-''" by simp
  with c show False by (simp add: isdigit_def)
qed


lemma date_length_le: "validate_date parse s = Inr True \<Longrightarrow> length s \<le> 10"
proof -
  assume "validate_date parse s = Inr True"
  then obtain dt where s: "strftime_ymd dt = s"
    unfolding validate_date_True_iff by blast
  have "length (str_nat (year_of dt)) \<le> 4"
  proof (cases "year_of dt < 1000")
    case True
    with str_nat_short [of "year_of dt"] show ?thesis by simp
  next
    case False
    with datetime_bounds(1) [of dt] show ?thesis
      by (simp add: str_nat_zpad4 zpad4_def)
  qed
  with strftime_length [of dt] s show ?thesis by simp
qed
section \<open>Facts about the operations\<close>

lemma get_valid_date_accept:
  assumes "stdin w = l # rest" and "validate_date parse (strip l) = Inr True"
  shows "get_valid_date parse prompt w =
           Inr (strip l, w\<lparr>stdin := rest, stdout := stdout w @ prompt\<rparr>)"
  by (subst get_valid_date.simps) (simp add: input_def assms)



lemma add_event_ok:
  assumes "stdin w = l1 # l2 # rest" and "validate_date parse (strip l1) = Inr True"
    and "strip l2 \<noteq> []"
  shows "add_event parse w =
     Inr \<lparr>stdin = rest,
          stdout = stdout w @ ''Enter event date (YYYY-MM-DD): '' @ ''Enter event description: '' @
                   ''Event added successfully for '' @ strip l1 @ ''!'' @ [LF],
          events_file = Some ((case events_file w of None \<Rightarrow> [] | Some c \<Rightarrow> c) @
                              event_line (strip l1) (strip l2))\<rparr>"
  using assms(3)
  by (simp add: add_event_def get_valid_date_accept [OF assms(1,2)] input_def print_def)

lemma add_event_empty:
  assumes "stdin w = l1 # l2 # rest" and "validate_date parse (strip l1) = Inr True"
    and "strip l2 = []"
  shows "add_event parse w =
     Inr \<lparr>stdin = rest,
          stdout = stdout w @ ''Enter event date (YYYY-MM-DD): '' @ ''Enter event description: '' @
                   ''Event description cannot be empty.'' @ [LF],
          events_file = events_file w\<rparr>"
  using assms(3)
  by (simp add: add_event_def get_valid_date_accept [OF assms(1,2)] input_def print_def)










section \<open>The small parser on the examples\<close>

lemma sample_parse_example: "validate_date sample_parse ''2025-05-20'' = Inr True"
  by code_simp

lemma sample_parse_values:
  "sample_parse ''2025-05-20'' = Inr (datetime_abs 2025 5 20)"
  "sample_parse ''2025-5-2'' = Inr (datetime_abs 2025 5 2)"
  "sample_parse ''08335394550'' = Inl OverflowError"
  "sample_parse ''0999-01-01'' = Inr (datetime_abs 999 1 1)"
  "sample_parse ''999-01-01'' = Inr (datetime_abs 999 1 1)"
  by (simp_all add: sample_parse_def split1_def startswith_def isdigit_def digit_val_def
      mk_datetime_def valid_ymd_def days_in_month_def mdays_def isleap_def numeral_2_eq_2 [symmetric])

lemma datetime_abs_fields:
  "valid_ymd (y, m, d) \<Longrightarrow>
   year_of (datetime_abs y m d) = y \<and> month_of (datetime_abs y m d) = m \<and>
   day_of (datetime_abs y m d) = d"
  by (simp add: year_of.rep_eq month_of.rep_eq day_of.rep_eq datetime_abs.rep_eq)

section \<open>Facts about deleting, viewing and the invariant\<close>

lemma rewrite_events_eq:
  "rewrite_events d x ls out found =
     (out @ concat (filter (\<lambda>l. \<not> matches d x l) ls), found \<or> filter (matches d x) ls \<noteq> [])"
  by (induction ls arbitrary: out found) (simp_all add: matches_def)

lemma delete_event_ok:
  assumes "stdin w = l1 # l2 # rest" and "validate_date parse (strip l1) = Inr True"
    and "strip l2 \<noteq> []" and "events_file w = Some content"
  shows "delete_event parse w =
     Inr \<lparr>stdin = rest,
          stdout = stdout w @ ''Enter event date (YYYY-MM-DD): '' @
                   ''Enter event description to delete: '' @
                   (if filter (matches (strip l1) (strip l2)) (readlines content) \<noteq> []
                    then ''Event deleted successfully for '' @ strip l1 @ ''!''
                    else ''No matching event found with the provided date and description.'') @ [LF],
          events_file = Some (concat (filter (\<lambda>l. \<not> matches (strip l1) (strip l2) l)
                                        (readlines content)))\<rparr>"
  using assms(3,4)
  by (simp add: delete_event_def get_valid_date_accept [OF assms(1,2)] input_def print_def
      rewrite_events_eq)


lemma view_loop_filter:
  "view_loop d (filter (\<lambda>l. \<not> (startswith l d \<and> Q l)) ls) w found =
   view_loop d (filter (\<lambda>l. \<not> Q l) ls) w found"
proof (induction ls arbitrary: w found)
  case Nil
  then show ?case by simp
next
  case (Cons l ls)
  then show ?case by (cases "startswith l d"; cases "Q l") (simp_all split: list.splits)
qed


lemma view_loop_events_file:
  "view_loop d ls w found = r \<Longrightarrow>
   events_file (case r of Inl (e, w') \<Rightarrow> w' | Inr (w', f) \<Rightarrow> w') = events_file w \<and>
   stdin (case r of Inl (e, w') \<Rightarrow> w' | Inr (w', f) \<Rightarrow> w') = stdin w"
proof (induction ls arbitrary: w found)
  case Nil
  then show ?case by auto
next
  case (Cons l ls)
  show ?case
  proof (cases "startswith l d")
    case False
    with Cons show ?thesis by simp
  next
    case True
    show ?thesis
    proof (cases "find (strip l) '' | ''")
      case None
      with True Cons.prems show ?thesis by (auto simp: split1_def)
    next
      case (Some i)
      with True Cons.prems have
        "view_loop d ls (print (''- '' @ drop (i + length '' | '') (strip l)) w) True = r"
        by (simp add: split1_def)
      from Cons.IH [OF this] show ?thesis by (simp add: print_def)
    qed
  qed
qed

lemma view_loop_raises:
  assumes "line \<in> set ls" and "startswith line d" and "\<not> str_contains line '' | ''"
  shows "\<exists>w'. view_loop d ls w found = Inl (ValueError, w')"
  using assms(1)
proof (induction ls arbitrary: w found)
  case Nil
  then show ?case by simp
next
  case (Cons l ls)
  show ?case
  proof (cases "startswith l d")
    case False
    with assms(2) Cons.prems have "line \<in> set ls" by auto
    from Cons.IH [OF this] False show ?thesis by simp
  next
    case True
    show ?thesis
    proof (cases "find (strip l) '' | ''")
      case None
      with True show ?thesis by (simp add: split1_def)
    next
      case (Some i)
      then have "str_contains (strip l) '' | ''" by (simp add: str_contains_def)
      then have "str_contains l '' | ''" by (rule str_contains_strip)
      with assms(3) Cons.prems have "line \<in> set ls" by auto
      from Cons.IH [OF this] True Some show ?thesis by (simp add: split1_def)
    qed
  qed
qed








lemma strip_iso_surround:
  assumes "iso_fields s = Some (y, m, d)" and "list_all isspace a" and "list_all isspace b"
  shows "strip (a @ s @ b) = s"
proof -
  have s: "s = zpad4 y @ ''-'' @ zpad2 m @ ''-'' @ zpad2 d"
    by (rule iso_fields_shape [OF assms(1)])
  have "strip s = s"
  proof (rule strip_id)
    show "s \<noteq> []" by (simp add: s zpad4_def)
    show "\<not> isspace (hd s)"
      by (subst s) (simp add: zpad4_def isdigit_not_space isdigit_digit)
    show "\<not> isspace (last s)"
      by (subst s) (simp add: zpad2_def isdigit_not_space isdigit_digit)
  qed
  with assms(2,3) show ?thesis by (simp add: strip_surround)
qed

lemma get_valid_date_refuse:
  assumes "stdin w = l # rest" and "validate_date parse (strip l) = Inr False"
  shows "get_valid_date parse prompt w =
     get_valid_date parse prompt
       (print ''Invalid date format. Please use YYYY-MM-DD (e.g., 2025-05-20)''
          (w\<lparr>stdin := rest, stdout := stdout w @ prompt\<rparr>))"
  using assms by (subst get_valid_date.simps) (simp add: input_def)

section \<open>The claims\<close>



text \<open>
  C2. \<^verbatim>\<open>delete_event\<close> with a valid date and a description that is not empty after
  stripping removes exactly the lines that start with the date and contain the
  description somewhere in the line: the rewritten file is the other lines of the old
  file, as they were read, in their order. No remaining line starts with the date and
  contains the description, so viewing the date afterwards shows what viewing the old
  file without the lines containing the description would show.
\<close>

theorem delete_removes_matching:
  assumes "stdin w = l1 # l2 # rest" and "validate_date parse (strip l1) = Inr True"
    and "strip l2 \<noteq> []" and "events_file w = Some content"
  shows "\<exists>w' content'. delete_event parse w = Inr w' \<and> events_file w' = Some content' \<and>
     content' =
       concat (filter (\<lambda>line. \<not> (startswith line (strip l1) \<and> str_contains line (strip l2)))
         (readlines content)) \<and>
     readlines content' =
       filter (\<lambda>line. \<not> (startswith line (strip l1) \<and> str_contains line (strip l2)))
         (readlines content) \<and>
     (\<forall>line. startswith line (strip l1) \<longleftrightarrow> (\<exists>s. line = strip l1 @ s)) \<and>
     (\<forall>line. str_contains line (strip l2) \<longleftrightarrow> (\<exists>p s. line = p @ strip l2 @ s)) \<and>
     (\<forall>line \<in> set (readlines content').
        \<not> (startswith line (strip l1) \<and> str_contains line (strip l2))) \<and>
     (\<forall>v found. view_loop (strip l1) (readlines content') v found =
        view_loop (strip l1)
          (filter (\<lambda>line. \<not> str_contains line (strip l2)) (readlines content)) v found)"
proof -
  let ?keep = "\<lambda>line. \<not> (startswith line (strip l1) \<and> str_contains line (strip l2))"
  let ?content' = "concat (filter ?keep (readlines content))"
  have rl: "readlines ?content' = filter ?keep (readlines content)"
    by (rule readlines_concat_filter)
  have "\<exists>w'. delete_event parse w = Inr w' \<and> events_file w' = Some ?content'"
    unfolding delete_event_ok [OF assms] by (simp add: matches_def)
  moreover have "\<forall>line \<in> set (readlines ?content'). ?keep line"
    unfolding rl by simp
  moreover have "\<forall>v found. view_loop (strip l1) (readlines ?content') v found =
        view_loop (strip l1)
          (filter (\<lambda>line. \<not> str_contains line (strip l2)) (readlines content)) v found"
    unfolding rl by (intro allI view_loop_filter)
  ultimately show ?thesis
    using rl startswith_iff str_contains_iff by blast
qed

theorem delete_removes_matching_witness:
  "\<exists>w' content'.
     delete_event sample_parse
       \<lparr>stdin = [''2025-05-20'', '' a ''], stdout = [],
        events_file = Some (''2025-05-20 | a'' @ [CR, LF] @ ''2025-05-21 | a'' @ [CR] @
                            ''2025-05-20 | b |a'' @ [LF] @ ''2025-05-20 | b'')\<rparr> = Inr w' \<and>
     events_file w' = Some content' \<and>
     content' = ''2025-05-21 | a'' @ [LF] @ ''2025-05-20 | b'' \<and>
     readlines content' = [''2025-05-21 | a'' @ [LF], ''2025-05-20 | b'']"
proof -
  have s: "strip ''2025-05-20'' = ''2025-05-20''" "strip '' a '' = ''a''"
    by (simp_all add: strip_def lstrip_def rstrip_def isspace_def)
  have r: "readlines (''2025-05-20 | a'' @ [CR, LF] @ ''2025-05-21 | a'' @ [CR] @
                            ''2025-05-20 | b |a'' @ [LF] @ ''2025-05-20 | b'') =
        [''2025-05-20 | a'' @ [LF], ''2025-05-21 | a'' @ [LF], ''2025-05-20 | b |a'' @ [LF],
         ''2025-05-20 | b'']"
    by (simp add: readlines_def)
  from delete_removes_matching [of
      "\<lparr>stdin = [''2025-05-20'', '' a ''], stdout = [],
        events_file = Some (''2025-05-20 | a'' @ [CR, LF] @ ''2025-05-21 | a'' @ [CR] @
                            ''2025-05-20 | b |a'' @ [LF] @ ''2025-05-20 | b'')\<rparr>"
      "''2025-05-20''" "'' a ''" "[]" sample_parse
      "''2025-05-20 | a'' @ [CR, LF] @ ''2025-05-21 | a'' @ [CR] @
                            ''2025-05-20 | b |a'' @ [LF] @ ''2025-05-20 | b''"]
    sample_parse_example s
  obtain w' content' where
    "delete_event sample_parse
       \<lparr>stdin = [''2025-05-20'', '' a ''], stdout = [],
        events_file = Some (''2025-05-20 | a'' @ [CR, LF] @ ''2025-05-21 | a'' @ [CR] @
                            ''2025-05-20 | b |a'' @ [LF] @ ''2025-05-20 | b'')\<rparr> = Inr w'"
    "events_file w' = Some content'"
    "content' =
       concat (filter (\<lambda>line. \<not> (startswith line ''2025-05-20'' \<and> str_contains line ''a''))
        [''2025-05-20 | a'' @ [LF], ''2025-05-21 | a'' @ [LF], ''2025-05-20 | b |a'' @ [LF],
         ''2025-05-20 | b''])"
    "readlines content' =
       filter (\<lambda>line. \<not> (startswith line ''2025-05-20'' \<and> str_contains line ''a''))
        [''2025-05-20 | a'' @ [LF], ''2025-05-21 | a'' @ [LF], ''2025-05-20 | b |a'' @ [LF],
         ''2025-05-20 | b'']"
    unfolding r by auto
  then show ?thesis
    by (intro exI conjI) (simp_all add: startswith_def str_contains_def)
qed
text \<open>
  C3. \<^verbatim>\<open>validate_date\<close> returns True exactly when the parser reads the string and
  formatting the parsed date with \<^verbatim>\<open>strftime("%Y-%m-%d")\<close> gives the string back. The
  year is formatted without leading zeros, so for a real calendar date written exactly
  as YYYY-MM-DD, which the parser reads as the date it writes, the result is True from
  the year 1000 on and False before it, while the same date written with the year
  unpadded, nine characters or fewer, is accepted. A string that the parser reads but
  that does not format back to itself is not valid, \<^verbatim>\<open>2025-5-2\<close> among them.
\<close>

theorem validate_date_year_below_1000:
  "(validate_date parse s = Inr True \<longleftrightarrow> (\<exists>dt. parse s = Inr dt \<and> strftime_ymd dt = s)) \<and>
   (parse s = Inr dt \<and> iso_fields s = Some (year_of dt, month_of dt, day_of dt) \<longrightarrow>
    is_iso_date s \<and> validate_date parse s = Inr (1000 \<le> year_of dt)) \<and>
   (parse s = Inr dt \<and> strftime_ymd dt = s \<and> year_of dt < 1000 \<longrightarrow>
    validate_date parse s = Inr True \<and> length s < 10 \<and> \<not> is_iso_date s) \<and>
   (parse s = Inr dt \<and> strftime_ymd dt \<noteq> s \<longrightarrow> validate_date parse s = Inr False) \<and>
   (parse ''2025-5-2'' = Inr dt' \<longrightarrow> validate_date parse ''2025-5-2'' = Inr False)"
proof (intro conjI impI)
  show "validate_date parse s = Inr True \<longleftrightarrow> (\<exists>dt. parse s = Inr dt \<and> strftime_ymd dt = s)"
    by (rule validate_date_True_iff)
  show "is_iso_date s"
    if "parse s = Inr dt \<and> iso_fields s = Some (year_of dt, month_of dt, day_of dt)"
    using that by (simp add: is_iso_date_def datetime_valid)
  show "validate_date parse s = Inr (1000 \<le> year_of dt)"
    if "parse s = Inr dt \<and> iso_fields s = Some (year_of dt, month_of dt, day_of dt)"
    using that strftime_of_fields [of s dt] by (simp add: validate_date_def)
  show "validate_date parse s = Inr True"
    if "parse s = Inr dt \<and> strftime_ymd dt = s \<and> year_of dt < 1000"
    using that by (simp add: validate_date_def)
  show "length s < 10" if "parse s = Inr dt \<and> strftime_ymd dt = s \<and> year_of dt < 1000"
    using that str_nat_short [of "year_of dt"] strftime_length [of dt] by auto
  then show "\<not> is_iso_date s"
    if "parse s = Inr dt \<and> strftime_ymd dt = s \<and> year_of dt < 1000"
    using that by (auto simp: is_iso_date_def iso_fields_def)
  show "validate_date parse s = Inr False" if "parse s = Inr dt \<and> strftime_ymd dt \<noteq> s"
    using that by (simp add: validate_date_def)
  show "validate_date parse ''2025-5-2'' = Inr False" if "parse ''2025-5-2'' = Inr dt'"
    using that strftime_not_loose [of dt'] by (simp add: validate_date_def)
qed

theorem validate_date_year_below_1000_witness:
  "is_iso_date ''0999-01-01'' \<and>
   validate_date sample_parse ''0999-01-01'' = Inr False \<and>
   validate_date sample_parse ''999-01-01'' = Inr True \<and>
   \<not> is_iso_date ''999-01-01'' \<and>
   validate_date sample_parse ''2025-05-20'' = Inr True \<and>
   validate_date sample_parse ''2025-5-2'' = Inr False"
proof -
  have v: "valid_ymd (999, 1, 1)" "valid_ymd (2025, 5, 20)"
    by (simp_all add: valid_ymd_def days_in_month_def mdays_def isleap_def)
  have f: "iso_fields ''0999-01-01'' = Some (999, 1, 1)"
    "iso_fields ''2025-05-20'' = Some (2025, 5, 20)"
    by (simp_all add: iso_fields_def isdigit_def digit_val_def)
  have st: "strftime_ymd (datetime_abs 999 1 1) = ''999-01-01''"
    using datetime_abs_fields [OF v(1)]
    by (simp add: strftime_ymd_def str_nat_3 zpad2_def digit_def)
  from validate_date_year_below_1000 [of sample_parse "''0999-01-01''" "datetime_abs 999 1 1"
      "datetime_abs 2025 5 2"]
    validate_date_year_below_1000 [of sample_parse "''999-01-01''" "datetime_abs 999 1 1"
      "datetime_abs 2025 5 2"]
    validate_date_year_below_1000 [of sample_parse "''2025-05-20''" "datetime_abs 2025 5 20"
      "datetime_abs 2025 5 2"]
    sample_parse_values datetime_abs_fields [OF v(1)]
    datetime_abs_fields [OF v(2)] f st
  show ?thesis by simp
qed
text \<open>
  C4, as the claim states it, fails: \<^verbatim>\<open>delete_event\<close> returns nothing and keeps a flag,
  not a count. Deleting one matching line and deleting two leave the program in the very
  same state, with the same text on the terminal.
\<close>

theorem delete_event_count_counterexample:
  "delete_event sample_parse
     \<lparr>stdin = [''2025-05-20'', ''a''], stdout = [],
      events_file = Some (''2025-05-20 | a'' @ [LF])\<rparr> =
   delete_event sample_parse
     \<lparr>stdin = [''2025-05-20'', ''a''], stdout = [],
      events_file = Some (''2025-05-20 | a'' @ [LF] @ ''2025-05-20 | a'' @ [LF])\<rparr> \<and>
   length (filter (matches ''2025-05-20'' ''a'') (readlines (''2025-05-20 | a'' @ [LF]))) = 1 \<and>
   length (filter (matches ''2025-05-20'' ''a'')
             (readlines (''2025-05-20 | a'' @ [LF] @ ''2025-05-20 | a'' @ [LF]))) = 2"
proof -
  have s: "strip ''2025-05-20'' = ''2025-05-20''" "strip ''a'' = ''a''"
    by (simp_all add: strip_def lstrip_def rstrip_def isspace_def)
  have m: "matches ''2025-05-20'' ''a'' (''2025-05-20 | a'' @ [LF])"
    by (simp add: matches_def startswith_def str_contains_def)
  have v: "validate_date sample_parse (strip ''2025-05-20'') = Inr True"
    using sample_parse_example by (simp add: s)
  have n: "strip ''a'' \<noteq> []"
    by (simp add: s)
  have "delete_event sample_parse
     \<lparr>stdin = [''2025-05-20'', ''a''], stdout = [],
      events_file = Some (''2025-05-20 | a'' @ [LF])\<rparr> =
   delete_event sample_parse
     \<lparr>stdin = [''2025-05-20'', ''a''], stdout = [],
      events_file = Some (''2025-05-20 | a'' @ [LF] @ ''2025-05-20 | a'' @ [LF])\<rparr>"
    using m by (simp add: delete_event_ok [OF _ v n] s readlines_def)
  moreover have "length (filter (matches ''2025-05-20'' ''a'') (readlines (''2025-05-20 | a'' @ [LF]))) = 1"
    using m by (simp add: readlines_def)
  moreover have "length (filter (matches ''2025-05-20'' ''a'')
             (readlines (''2025-05-20 | a'' @ [LF] @ ''2025-05-20 | a'' @ [LF]))) = 2"
    using m by (simp add: readlines_def)
  ultimately show ?thesis by blast
qed

text \<open>
  C4, amended. \<^verbatim>\<open>delete_event\<close> returns no count. With a valid date and a non-empty
  description it rewrites the file as the lines read from it that do not both start with
  the date and contain the description, in their order, ends normally, and reports to the
  user whether any line was removed: the success message when at least one line matched,
  the no-match message when none did. The lines kept and the lines removed are together
  the lines of the old file.
\<close>

theorem delete_event_reports:
  assumes "stdin w = l1 # l2 # rest" and "validate_date parse (strip l1) = Inr True"
    and "strip l2 \<noteq> []" and "events_file w = Some content"
  shows "\<exists>w' content'. delete_event parse w = Inr w' \<and> events_file w' = Some content' \<and>
     content' =
       concat (filter (\<lambda>line. \<not> (startswith line (strip l1) \<and> str_contains line (strip l2)))
         (readlines content)) \<and>
     readlines content' =
       filter (\<lambda>line. \<not> (startswith line (strip l1) \<and> str_contains line (strip l2)))
         (readlines content) \<and>
     length (readlines content') +
       length (filter (\<lambda>line. startswith line (strip l1) \<and> str_contains line (strip l2))
         (readlines content)) =
     length (readlines content) \<and>
     stdin w' = rest \<and>
     stdout w' = stdout w @ ''Enter event date (YYYY-MM-DD): '' @
       ''Enter event description to delete: '' @
       (if filter (\<lambda>line. startswith line (strip l1) \<and> str_contains line (strip l2))
             (readlines content) = []
        then ''No matching event found with the provided date and description.''
        else ''Event deleted successfully for '' @ strip l1 @ ''!'') @ [LF]"
proof -
  let ?m = "\<lambda>line. startswith line (strip l1) \<and> str_contains line (strip l2)"
  let ?content' = "concat (filter (\<lambda>l. \<not> ?m l) (readlines content))"
  have m: "matches (strip l1) (strip l2) = ?m"
    by (rule ext) (simp add: matches_def)
  have rl: "readlines ?content' = filter (\<lambda>l. \<not> ?m l) (readlines content)"
    by (rule readlines_concat_filter)
  then have "length (readlines ?content') + length (filter ?m (readlines content)) =
      length (readlines content)"
    using sum_length_filter_compl [of ?m "readlines content"] by simp
  with rl show ?thesis
    unfolding delete_event_ok [OF assms] m by simp
qed

theorem delete_event_reports_witness:
  "\<exists>w' content'.
     delete_event sample_parse
       \<lparr>stdin = [''2025-05-20'', ''a''], stdout = [],
        events_file = Some (''2025-05-20 | a'' @ [CR, LF] @ ''2025-05-20 | a'' @ [LF] @
                            ''2025-05-21 | c'' @ [CR])\<rparr> = Inr w' \<and>
     events_file w' = Some content' \<and>
     content' = ''2025-05-21 | c'' @ [LF] \<and>
     length (readlines content') + 2 = 3 \<and>
     stdout w' = ''Enter event date (YYYY-MM-DD): '' @ ''Enter event description to delete: '' @
       ''Event deleted successfully for 2025-05-20!'' @ [LF]"
proof -
  have s: "strip ''2025-05-20'' = ''2025-05-20''" "strip ''a'' = ''a''"
    by (simp_all add: strip_def lstrip_def rstrip_def isspace_def)
  have r: "readlines (''2025-05-20 | a'' @ [CR, LF] @ ''2025-05-20 | a'' @ [LF] @
                            ''2025-05-21 | c'' @ [CR]) =
      [''2025-05-20 | a'' @ [LF], ''2025-05-20 | a'' @ [LF], ''2025-05-21 | c'' @ [LF]]"
    by (simp add: readlines_def)
  have m: "startswith (''2025-05-20 | a'' @ [LF]) ''2025-05-20''"
    "str_contains (''2025-05-20 | a'' @ [LF]) ''a''"
    "\<not> startswith (''2025-05-21 | c'' @ [LF]) ''2025-05-20''"
    by (simp_all add: startswith_def str_contains_def)
  from delete_event_reports [of
      "\<lparr>stdin = [''2025-05-20'', ''a''], stdout = [],
        events_file = Some (''2025-05-20 | a'' @ [CR, LF] @ ''2025-05-20 | a'' @ [LF] @
                            ''2025-05-21 | c'' @ [CR])\<rparr>"
      "''2025-05-20''" "''a''" "[]" sample_parse
      "''2025-05-20 | a'' @ [CR, LF] @ ''2025-05-20 | a'' @ [LF] @ ''2025-05-21 | c'' @ [CR]"]
    sample_parse_example s
  obtain w' content' where
    "delete_event sample_parse
       \<lparr>stdin = [''2025-05-20'', ''a''], stdout = [],
        events_file = Some (''2025-05-20 | a'' @ [CR, LF] @ ''2025-05-20 | a'' @ [LF] @
                            ''2025-05-21 | c'' @ [CR])\<rparr> = Inr w'"
    "events_file w' = Some content'"
    "content' = concat (filter (\<lambda>line. \<not> (startswith line ''2025-05-20'' \<and> str_contains line ''a''))
        [''2025-05-20 | a'' @ [LF], ''2025-05-20 | a'' @ [LF], ''2025-05-21 | c'' @ [LF]])"
    "length (readlines content') +
       length (filter (\<lambda>line. startswith line ''2025-05-20'' \<and> str_contains line ''a'')
         [''2025-05-20 | a'' @ [LF], ''2025-05-20 | a'' @ [LF], ''2025-05-21 | c'' @ [LF]]) =
     length [''2025-05-20 | a'' @ [LF], ''2025-05-20 | a'' @ [LF], ''2025-05-21 | c'' @ [LF]]"
    "stdout w' = ''Enter event date (YYYY-MM-DD): '' @
       ''Enter event description to delete: '' @
       (if filter (\<lambda>line. startswith line ''2025-05-20'' \<and> str_contains line ''a'')
             [''2025-05-20 | a'' @ [LF], ''2025-05-20 | a'' @ [LF], ''2025-05-21 | c'' @ [LF]] = []
        then ''No matching event found with the provided date and description.''
        else ''Event deleted successfully for '' @ ''2025-05-20'' @ ''!'') @ [LF]"
    unfolding r by auto
  with m show ?thesis
    by (intro exI conjI) simp_all
qed


text \<open>
  C6. \<^verbatim>\<open>validate_date\<close> catches ValueError only. When the parser raises ValueError the
  result is False; any other exception of the parser, such as the OverflowError that
  dateutil documents, leaves \<^verbatim>\<open>validate_date\<close>, and then leaves \<^verbatim>\<open>get_valid_date\<close>
  and \<^verbatim>\<open>add_event\<close> as well, after the prompt has been written.
\<close>

theorem validate_date_exceptions:
  assumes "parse s = Inl e"
  shows "validate_date parse s = (if e = ValueError then Inr False else Inl e) \<and>
    (e \<noteq> ValueError \<and> stdin w = l # rest \<and> strip l = s \<longrightarrow>
       get_valid_date parse prompt w =
         Inl (e, w\<lparr>stdin := rest, stdout := stdout w @ prompt\<rparr>) \<and>
       add_event parse w =
         Inl (e, w\<lparr>stdin := rest, stdout := stdout w @ ''Enter event date (YYYY-MM-DD): ''\<rparr>))"
proof (intro conjI impI)
  show v: "validate_date parse s = (if e = ValueError then Inr False else Inl e)"
    using assms by (simp add: validate_date_def)
  assume h: "e \<noteq> ValueError \<and> stdin w = l # rest \<and> strip l = s"
  with v show g: "get_valid_date parse prompt w =
      Inl (e, w\<lparr>stdin := rest, stdout := stdout w @ prompt\<rparr>)" for prompt
    by (subst get_valid_date.simps) (simp add: input_def)
  show "add_event parse w =
      Inl (e, w\<lparr>stdin := rest, stdout := stdout w @ ''Enter event date (YYYY-MM-DD): ''\<rparr>)"
    by (simp add: add_event_def g)
qed

theorem validate_date_exceptions_witness:
  "sample_parse ''08335394550'' = Inl OverflowError \<and>
   validate_date sample_parse ''08335394550'' = Inl OverflowError \<and>
   add_event sample_parse \<lparr>stdin = [''08335394550'', ''Dentist''], stdout = [], events_file = Some []\<rparr> =
     Inl (OverflowError,
          \<lparr>stdin = [''Dentist''], stdout = ''Enter event date (YYYY-MM-DD): '', events_file = Some []\<rparr>)"
proof -
  have "strip ''08335394550'' = ''08335394550''"
    by (simp add: strip_def lstrip_def rstrip_def isspace_def)
  with validate_date_exceptions [of sample_parse "''08335394550''" OverflowError
      "\<lparr>stdin = [''08335394550'', ''Dentist''], stdout = [], events_file = Some []\<rparr>"
      "''08335394550''" "[''Dentist'']" "[]"]
    sample_parse_values(3)
  show ?thesis by simp
qed

text \<open>
  C7. When the two lines typed convert to integers and the month is below 1 or above
  12, \<^verbatim>\<open>display_calendar\<close> writes the two prompts and the invalid-month message and
  nothing else: no header, no weekday row, no day cells.
\<close>

theorem display_calendar_invalid_month:
  assumes "stdin w = ys # ms # rest"
    and "py_int (strip ys) = Inr year" and "py_int (strip ms) = Inr month"
    and "month < 1 \<or> month > 12"
  shows "display_calendar w =
     Inr (w\<lparr>stdin := rest,
            stdout := stdout w @ ''Enter year (e.g., 2025): '' @ ''Enter month (1-12): '' @
              ''Invalid month. Please enter a number between 1 and 12.'' @ [LF]\<rparr>)"
  using assms(4) by (simp add: display_calendar_def input_def assms(1-3) print_def)

theorem display_calendar_invalid_month_witness:
  "display_calendar \<lparr>stdin = [''2025'', ''13''], stdout = [], events_file = Some []\<rparr> =
     Inr \<lparr>stdin = [],
          stdout = ''Enter year (e.g., 2025): '' @ ''Enter month (1-12): '' @
              ''Invalid month. Please enter a number between 1 and 12.'' @ [LF],
          events_file = Some []\<rparr> \<and>
   display_calendar \<lparr>stdin = [''2025'', ''0''], stdout = [], events_file = Some []\<rparr> =
     Inr \<lparr>stdin = [],
          stdout = ''Enter year (e.g., 2025): '' @ ''Enter month (1-12): '' @
              ''Invalid month. Please enter a number between 1 and 12.'' @ [LF],
          events_file = Some []\<rparr>"
proof -
  have s: "strip ''2025'' = ''2025''" "strip ''13'' = ''13''" "strip ''0'' = ''0''"
    by (simp_all add: strip_def lstrip_def rstrip_def isspace_def)
  have i: "py_int ''2025'' = Inr 2025" "py_int ''13'' = Inr 13" "py_int ''0'' = Inr 0"
    by (simp_all add: py_int_def s isdigit_def digit_val_def)
  from display_calendar_invalid_month
         [of "\<lparr>stdin = [''2025'', ''13''], stdout = [], events_file = Some []\<rparr>"
            "''2025''" "''13''" "[]" 2025 13]
       display_calendar_invalid_month
         [of "\<lparr>stdin = [''2025'', ''0''], stdout = [], events_file = Some []\<rparr>"
            "''2025''" "''0''" "[]" 2025 0]
       s i
  show ?thesis by simp
qed



text \<open>
  C9. When a line of the file has the queried date as its first ten characters and no
  delimiter anywhere, \<^verbatim>\<open>view_events\<close> ends with a ValueError: the unpacking of the
  one-piece split raises it, and the operation catches I/O errors only. The file is
  left as it was.
\<close>

theorem view_events_missing_delimiter:
  assumes "stdin w = l # rest" and "validate_date parse (strip l) = Inr True"
    and "events_file w = Some content"
    and "line \<in> set (readlines content)" and "take 10 line = strip l"
    and "\<not> str_contains line '' | ''"
  shows "\<exists>w'. view_events parse w = Inl (ValueError, w') \<and> events_file w' = Some content"
proof -
  have "length (strip l) \<le> 10"
    using assms(2) by (rule date_length_le)
  then have "take (length (strip l)) line = take (length (strip l)) (take 10 line)"
    by (simp add: min_def)
  with assms(5) have sw: "startswith line (strip l)"
    by (simp add: startswith_def)
  define w1 where "w1 = w\<lparr>stdin := rest, stdout := stdout w @ ''Enter date to view events (YYYY-MM-DD): ''\<rparr>"
  define w2 where "w2 = print (replicate 40 CHR ''-'') (print ([LF] @ ''Events for '' @ strip l @ '':'') w1)"
  have gvd: "get_valid_date parse ''Enter date to view events (YYYY-MM-DD): '' w = Inr (strip l, w1)"
    unfolding w1_def by (rule get_valid_date_accept [OF assms(1,2)])
  from view_loop_raises [OF assms(4) sw assms(6)] obtain w' where
    loop: "view_loop (strip l) (readlines content) w2 False = Inl (ValueError, w')"
    by blast
  from view_loop_events_file [OF loop] have "events_file w' = Some content"
    by (simp add: w2_def w1_def print_def assms(3))
  moreover have "view_events parse w = Inl (ValueError, w')"
    unfolding view_events_def gvd using loop
    by (simp add: w1_def assms(3) w2_def [unfolded w1_def])
  ultimately show ?thesis by blast
qed

theorem view_events_missing_delimiter_witness:
  "\<exists>w'. view_events sample_parse
          \<lparr>stdin = [''2025-05-20''], stdout = [],
           events_file = Some (''2025-05-20 | a'' @ [LF] @ ''2025-05-20 Dentist'' @ [LF])\<rparr> =
        Inl (ValueError, w') \<and>
        events_file w' = Some (''2025-05-20 | a'' @ [LF] @ ''2025-05-20 Dentist'' @ [LF])"
proof -
  have s: "strip ''2025-05-20'' = ''2025-05-20''"
    by (simp add: strip_def lstrip_def rstrip_def isspace_def)
  from view_events_missing_delimiter [of
      "\<lparr>stdin = [''2025-05-20''], stdout = [],
           events_file = Some (''2025-05-20 | a'' @ [LF] @ ''2025-05-20 Dentist'' @ [LF])\<rparr>"
      "''2025-05-20''" "[]" sample_parse
      "''2025-05-20 | a'' @ [LF] @ ''2025-05-20 Dentist'' @ [LF]"
      "''2025-05-20 Dentist'' @ [LF]"]
    sample_parse_example s
  show ?thesis by (simp add: str_contains_def startswith_def readlines_def)
qed

text \<open>
  C10. \<^verbatim>\<open>add_event\<close> strips what is typed before it validates and stores it. A date
  that \<^verbatim>\<open>validate_date\<close> accepts, typed with whitespace around it, is accepted and
  stored without the whitespace; a description of whitespace only is refused and nothing
  is stored; otherwise the stored line is the date, the delimiter and the stripped
  description, and neither field begins or ends with whitespace. The date stored has at
  most ten characters and is a real date in the form YYYY-MM-DD when it has ten. A real
  date of a year below 1000 typed in the form YYYY-MM-DD is refused, and asked for
  again, while the same date with the year unpadded is accepted and stored with fewer
  than ten characters.
\<close>

theorem add_event_strips:
  assumes "stdin w = (a @ d @ b) # l2 # rest"
    and "list_all isspace a" and "list_all isspace b"
  shows "(validate_date parse d = Inr True \<longrightarrow>
      (\<exists>w'. add_event parse w = Inr w' \<and>
         (list_all isspace l2 \<longrightarrow>
            events_file w' = events_file w \<and>
            stdout w' = stdout w @ ''Enter event date (YYYY-MM-DD): '' @
              ''Enter event description: '' @ ''Event description cannot be empty.'' @ [LF]) \<and>
         (\<not> list_all isspace l2 \<longrightarrow>
            events_file w' = Some ((case events_file w of None \<Rightarrow> [] | Some c \<Rightarrow> c) @
                                   d @ '' | '' @ strip l2 @ [LF]) \<and>
            length d \<le> 10 \<and> (length d = 10 \<longrightarrow> is_iso_date d) \<and>
            \<not> isspace (hd d) \<and> \<not> isspace (last d) \<and>
            strip l2 \<noteq> [] \<and> \<not> isspace (hd (strip l2)) \<and> \<not> isspace (last (strip l2))))) \<and>
   (parse d = Inr dt \<and> iso_fields d = Some (year_of dt, month_of dt, day_of dt) \<and>
    year_of dt < 1000 \<longrightarrow>
      is_iso_date d \<and>
      add_event parse w =
        add_event parse
          (print ''Invalid date format. Please use YYYY-MM-DD (e.g., 2025-05-20)''
             (w\<lparr>stdin := l2 # rest, stdout := stdout w @ ''Enter event date (YYYY-MM-DD): ''\<rparr>))) \<and>
   (parse d = Inr dt \<and> strftime_ymd dt = d \<and> year_of dt < 1000 \<longrightarrow>
      validate_date parse d = Inr True \<and> length d < 10)"
proof (intro conjI impI)
  assume v0: "validate_date parse d = Inr True"
  have sd: "strip (a @ d @ b) = d"
    by (rule strip_date_surround [OF v0 assms(2,3)])
  have v: "validate_date parse (strip (a @ d @ b)) = Inr True"
    by (simp add: sd v0)
  show "\<exists>w'. add_event parse w = Inr w' \<and>
         (list_all isspace l2 \<longrightarrow>
            events_file w' = events_file w \<and>
            stdout w' = stdout w @ ''Enter event date (YYYY-MM-DD): '' @
              ''Enter event description: '' @ ''Event description cannot be empty.'' @ [LF]) \<and>
         (\<not> list_all isspace l2 \<longrightarrow>
            events_file w' = Some ((case events_file w of None \<Rightarrow> [] | Some c \<Rightarrow> c) @
                                   d @ '' | '' @ strip l2 @ [LF]) \<and>
            length d \<le> 10 \<and> (length d = 10 \<longrightarrow> is_iso_date d) \<and>
            \<not> isspace (hd d) \<and> \<not> isspace (last d) \<and>
            strip l2 \<noteq> [] \<and> \<not> isspace (hd (strip l2)) \<and> \<not> isspace (last (strip l2)))"
  proof (cases "list_all isspace l2")
    case True
    then have "strip l2 = []" by (simp add: strip_Nil_iff)
    from add_event_empty [OF assms(1) v this] True show ?thesis by simp
  next
    case False
    then have ne: "strip l2 \<noteq> []" by (simp add: strip_Nil_iff)
    note ends = strip_ends [OF ne] date_chars(2,3) [OF v0]
    have "length d = 10 \<longrightarrow> is_iso_date d"
      using v0 by (simp add: validate_date_iso)
    with add_event_ok [OF assms(1) v ne] False ends ne date_length_le [OF v0] show ?thesis
      by (simp add: sd event_line_def isdigit_not_space)
  qed
next
  assume h: "parse d = Inr dt \<and> iso_fields d = Some (year_of dt, month_of dt, day_of dt) \<and>
    year_of dt < 1000"
  then show "is_iso_date d"
    by (simp add: is_iso_date_def datetime_valid)
  from h have sd: "strip (a @ d @ b) = d"
    by (intro strip_iso_surround [OF _ assms(2,3)]) simp
  from h strftime_of_fields [of d dt] have "validate_date parse d = Inr False"
    by (simp add: validate_date_def)
  then have "validate_date parse (strip (a @ d @ b)) = Inr False"
    by (simp add: sd)
  from get_valid_date_refuse [OF assms(1) this]
  show "add_event parse w =
        add_event parse
          (print ''Invalid date format. Please use YYYY-MM-DD (e.g., 2025-05-20)''
             (w\<lparr>stdin := l2 # rest, stdout := stdout w @ ''Enter event date (YYYY-MM-DD): ''\<rparr>))"
    by (simp add: add_event_def)
next
  assume h: "parse d = Inr dt \<and> strftime_ymd dt = d \<and> year_of dt < 1000"
  then show "validate_date parse d = Inr True"
    by (simp add: validate_date_def)
  from h str_nat_short [of "year_of dt"] strftime_length [of dt] show "length d < 10"
    by auto
qed

theorem add_event_strips_witness:
  "(\<exists>w'. add_event sample_parse
          \<lparr>stdin = [''  2025-05-20 '', '' Team meeting  ''], stdout = [], events_file = Some []\<rparr> =
        Inr w' \<and>
        events_file w' = Some (''2025-05-20 | Team meeting'' @ [LF])) \<and>
   (\<exists>w'. add_event sample_parse
          \<lparr>stdin = [''  2025-05-20 '', ''   ''], stdout = [], events_file = Some []\<rparr> =
        Inr w' \<and> events_file w' = Some []) \<and>
   is_iso_date ''0999-01-01'' \<and>
   add_event sample_parse
     \<lparr>stdin = ['' 0999-01-01 '', '' 999-01-01 '', ''Old''], stdout = [], events_file = Some []\<rparr> =
   add_event sample_parse
     \<lparr>stdin = ['' 999-01-01 '', ''Old''],
      stdout = ''Enter event date (YYYY-MM-DD): '' @
        ''Invalid date format. Please use YYYY-MM-DD (e.g., 2025-05-20)'' @ [LF],
      events_file = Some []\<rparr> \<and>
   (\<exists>w'. add_event sample_parse
          \<lparr>stdin = ['' 999-01-01 '', ''Old''],
           stdout = ''Enter event date (YYYY-MM-DD): '' @
             ''Invalid date format. Please use YYYY-MM-DD (e.g., 2025-05-20)'' @ [LF],
           events_file = Some []\<rparr> = Inr w' \<and>
        events_file w' = Some (''999-01-01 | Old'' @ [LF]))"
proof -
  have s: "strip '' Team meeting  '' = ''Team meeting''" "strip ''Old'' = ''Old''"
    by (simp_all add: strip_def lstrip_def rstrip_def isspace_def)
  have sp: "list_all isspace ''  ''" "list_all isspace '' ''" "list_all isspace ''   ''"
    "\<not> list_all isspace '' Team meeting  ''" "\<not> list_all isspace ''Old''"
    by (simp_all add: isspace_def)
  have v: "valid_ymd (999, 1, 1)"
    by (simp add: valid_ymd_def days_in_month_def mdays_def isleap_def)
  have f: "iso_fields ''0999-01-01'' = Some (999, 1, 1)"
    by (simp add: iso_fields_def isdigit_def digit_val_def)
  have st: "strftime_ymd (datetime_abs 999 1 1) = ''999-01-01''"
    using datetime_abs_fields [OF v]
    by (simp add: strftime_ymd_def str_nat_3 zpad2_def digit_def)
  have short: "validate_date sample_parse ''999-01-01'' = Inr True"
    using st by (simp add: validate_date_def sample_parse_values)
  from add_event_strips [of
      "\<lparr>stdin = [''  2025-05-20 '', '' Team meeting  ''], stdout = [], events_file = Some []\<rparr>"
      "''  ''" "''2025-05-20''" "'' ''" "'' Team meeting  ''" "[]" sample_parse]
    sample_parse_example s sp
  have 1: "\<exists>w'. add_event sample_parse
          \<lparr>stdin = [''  2025-05-20 '', '' Team meeting  ''], stdout = [], events_file = Some []\<rparr> =
        Inr w' \<and>
        events_file w' = Some (''2025-05-20 | Team meeting'' @ [LF])"
    by auto
  from add_event_strips [of
      "\<lparr>stdin = [''  2025-05-20 '', ''   ''], stdout = [], events_file = Some []\<rparr>"
      "''  ''" "''2025-05-20''" "'' ''" "''   ''" "[]" sample_parse]
    sample_parse_example sp
  have 2: "\<exists>w'. add_event sample_parse
          \<lparr>stdin = [''  2025-05-20 '', ''   ''], stdout = [], events_file = Some []\<rparr> =
        Inr w' \<and> events_file w' = Some []"
    by auto
  from add_event_strips [of
      "\<lparr>stdin = ['' 0999-01-01 '', '' 999-01-01 '', ''Old''], stdout = [], events_file = Some []\<rparr>"
      "'' ''" "''0999-01-01''" "'' ''" "'' 999-01-01 ''" "[''Old'']" sample_parse
      "datetime_abs 999 1 1"]
    sample_parse_values(4) datetime_abs_fields [OF v] f sp
  have 3: "is_iso_date ''0999-01-01'' \<and>
   add_event sample_parse
     \<lparr>stdin = ['' 0999-01-01 '', '' 999-01-01 '', ''Old''], stdout = [], events_file = Some []\<rparr> =
   add_event sample_parse
     \<lparr>stdin = ['' 999-01-01 '', ''Old''],
      stdout = ''Enter event date (YYYY-MM-DD): '' @
        ''Invalid date format. Please use YYYY-MM-DD (e.g., 2025-05-20)'' @ [LF],
      events_file = Some []\<rparr>"
    by (simp add: print_def)
  from add_event_strips [of
      "\<lparr>stdin = ['' 999-01-01 '', ''Old''],
           stdout = ''Enter event date (YYYY-MM-DD): '' @
             ''Invalid date format. Please use YYYY-MM-DD (e.g., 2025-05-20)'' @ [LF],
           events_file = Some []\<rparr>"
      "'' ''" "''999-01-01''" "'' ''" "''Old''" "[]" sample_parse]
    short s sp
  have 4: "\<exists>w'. add_event sample_parse
          \<lparr>stdin = ['' 999-01-01 '', ''Old''],
           stdout = ''Enter event date (YYYY-MM-DD): '' @
             ''Invalid date format. Please use YYYY-MM-DD (e.g., 2025-05-20)'' @ [LF],
           events_file = Some []\<rparr> = Inr w' \<and>
        events_file w' = Some (''999-01-01 | Old'' @ [LF])"
    by auto
  from 1 2 3 4 show ?thesis by blast
qed
end
